theory Spec2Isabelle
  imports Complex_Main "HOL-Library.Multiset" "HOL-Library.Char_ord" "HOL-Library.List_Lexorder"
begin

section \<open>Numbers\<close>

text \<open>
  The program computes with IEEE floats (Python \<open>float\<close>, numpy \<open>float64\<close>).
  A float is modelled as a \<open>real option\<close>: \<open>Some x\<close> is the number \<open>x\<close>,
  \<open>None\<close> is NaN (pandas' missing value; it also stands for the non-finite result
  of a division by zero). Arithmetic propagates \<open>None\<close>, and every comparison with
  \<open>None\<close> is false, as for NaN. Rounding error of the float operations is not modelled.
\<close>

type_synonym num = "real option"

definition nlift2 :: "(real \<Rightarrow> real \<Rightarrow> real) \<Rightarrow> num \<Rightarrow> num \<Rightarrow> num" where
  "nlift2 f a b = (case a of None \<Rightarrow> None | Some x \<Rightarrow> (case b of None \<Rightarrow> None | Some y \<Rightarrow> Some (f x y)))"

definition nadd :: "num \<Rightarrow> num \<Rightarrow> num" where
  "nadd = nlift2 (+)"

definition nsub :: "num \<Rightarrow> num \<Rightarrow> num" where
  "nsub = nlift2 (-)"

definition nmul :: "num \<Rightarrow> num \<Rightarrow> num" where
  "nmul = nlift2 (*)"

definition ndiv :: "num \<Rightarrow> num \<Rightarrow> num" where
  "ndiv a b = (case a of None \<Rightarrow> None | Some x \<Rightarrow>
     (case b of None \<Rightarrow> None | Some y \<Rightarrow> if y = 0 then None else Some (x / y)))"

definition nlt :: "num \<Rightarrow> num \<Rightarrow> bool" where
  "nlt a b = (case a of None \<Rightarrow> False | Some x \<Rightarrow> (case b of None \<Rightarrow> False | Some y \<Rightarrow> x < y))"

definition ngt :: "num \<Rightarrow> num \<Rightarrow> bool" where
  "ngt a b = nlt b a"

definition isna :: "num \<Rightarrow> bool" where
  "isna a = (a = None)"

text \<open>Python's \<open>round(x, n)\<close>: to \<open>n\<close> decimals, a tie going to the even neighbour.\<close>

definition round_half_even :: "real \<Rightarrow> int" where
  "round_half_even x =
     (let f = \<lfloor>x\<rfloor>; d = x - of_int f
      in if d < 1 / 2 then f else if 1 / 2 < d then f + 1 else if even f then f else f + 1)"

definition round_real :: "real \<Rightarrow> nat \<Rightarrow> real" where
  "round_real x n = of_int (round_half_even (x * 10 ^ n)) / 10 ^ n"

definition round_num :: "num \<Rightarrow> nat \<Rightarrow> num" where
  "round_num a n = map_option (\<lambda>x. round_real x n) a"

section \<open>Data model\<close>

text \<open>
  A row of the OHLCV DataFrame: the index entry (a timestamp, kept as a day number)
  and the columns. The DataFrame \<open>df\<close> is the list of its rows in index order.
\<close>

record bar =
  date :: int
  Open :: num
  High :: num
  Low :: num
  Close :: num
  Volume :: num

text \<open>
  A raised exception is an \<open>error\<close>. The services report bad input by returning
  a dictionary with the single key \<open>error\<close> instead: an \<open>outcome\<close> tells that
  dictionary (\<open>Error_dict\<close>, with its message) from a raised exception and from a
  normal result.
\<close>

datatype error = IndexError | KeyError | TypeError | ValueError | ZeroDivisionError

datatype 'a outcome = Raised error | Error_dict string | Ok 'a

text \<open>Python list indexing with a non-negative index.\<close>

definition list_get :: "'a list \<Rightarrow> nat \<Rightarrow> error + 'a" where
  "list_get xs i = (if i < length xs then Inr (xs ! i) else Inl IndexError)"

section \<open>pandas operations used by the services\<close>

text \<open>\<open>Series.iloc[i]\<close>: a negative position counts from the end.\<close>

definition iloc :: "'a list \<Rightarrow> int \<Rightarrow> error + 'a" where
  "iloc xs i =
     (let n = int (length xs); j = (if i < 0 then n + i else i)
      in if 0 \<le> j \<and> j < n then Inr (xs ! nat j) else Inl IndexError)"

text \<open>
  \<open>Series.ewm(span=s).mean()\<close>, which the indicator engine calls with pandas'
  defaults \<open>adjust=True\<close>, \<open>ignore_na=False\<close>, \<open>min_periods=0\<close>: the loop of
  pandas' \<open>ewm\<close> kernel, with \<open>\<alpha> = 2 / (span + 1)\<close>. Its state is the running
  mean \<open>weighted\<close>, the weight \<open>old_wt\<close> of everything seen so far, and the number
  \<open>nobs\<close> of observations. The first entry starts the mean with weight 1. At each
  later entry \<open>old_wt\<close> is multiplied by \<open>1 - \<alpha>\<close>; an observed entry \<open>cur\<close> then
  replaces the mean by \<open>(old_wt * weighted + new_wt * cur) / (old_wt + new_wt)\<close> (left
  alone when it already equals \<open>cur\<close>) and adds \<open>new_wt\<close> to \<open>old_wt\<close>, where
  \<open>new_wt\<close> is 1 under \<open>adjust=True\<close>; a missing entry leaves the mean as it is.
  While no entry has been observed the mean is missing, and the first observed entry
  becomes the mean. The output at each position is the mean, once one observation has
  been made. A span below 1 is rejected with a ValueError.
\<close>

definition ewm_alpha :: "int \<Rightarrow> real" where
  "ewm_alpha spn = 2 / (of_int spn + 1)"

record ewm_state =
  weighted :: num
  old_wt :: real
  nobs :: nat

definition ewm_output :: "ewm_state \<Rightarrow> num" where
  "ewm_output st = (if 1 \<le> nobs st then weighted st else None)"

definition ewm_first :: "num \<Rightarrow> ewm_state" where
  "ewm_first x = \<lparr>weighted = x, old_wt = 1, nobs = (if x \<noteq> None then 1 else 0)\<rparr>"

definition ewm_step :: "real \<Rightarrow> ewm_state \<Rightarrow> num \<Rightarrow> ewm_state" where
  "ewm_step alpha st cur =
     (let n = (if cur \<noteq> None then nobs st + 1 else nobs st)
      in case weighted st of
           Some w \<Rightarrow>
             (let wt = old_wt st * (1 - alpha)
              in case cur of
                   Some c \<Rightarrow>
                     \<lparr>weighted = (if w \<noteq> c then Some ((wt * w + 1 * c) / (wt + 1)) else Some w),
                      old_wt = wt + 1, nobs = n\<rparr>
                 | None \<Rightarrow> \<lparr>weighted = Some w, old_wt = wt, nobs = n\<rparr>)
         | None \<Rightarrow>
             (case cur of
                Some c \<Rightarrow> \<lparr>weighted = Some c, old_wt = old_wt st, nobs = n\<rparr>
              | None \<Rightarrow> \<lparr>weighted = None, old_wt = old_wt st, nobs = n\<rparr>))"

fun ewm_loop :: "real \<Rightarrow> ewm_state \<Rightarrow> num list \<Rightarrow> num list" where
  "ewm_loop alpha st [] = []"
| "ewm_loop alpha st (x # xs) =
     (let st' = ewm_step alpha st x in ewm_output st' # ewm_loop alpha st' xs)"

definition ewm_mean :: "int \<Rightarrow> num list \<Rightarrow> error + num list" where
  "ewm_mean spn xs =
     (if spn < 1 then Inl ValueError
      else case xs of
             [] \<Rightarrow> Inr []
           | x # rest \<Rightarrow> Inr (ewm_output (ewm_first x) # ewm_loop (ewm_alpha spn) (ewm_first x) rest))"








section \<open>Indicator engine (technical_analysis.py)\<close>

text \<open>
  The result dictionaries keep the series and the \<open>latest\<close> entry; the constant
  entries (indicator name and periods) are left out.
\<close>

record macd_result =
  macd_line :: "num list"
  signal_line :: "num list"
  histogram :: "num list"
  macd_latest :: "num \<times> num \<times> num"

text \<open>\<open>round(float(s.iloc[-1]), n) if pd.notna(s.iloc[-1]) else None\<close>.\<close>

definition latest :: "num list \<Rightarrow> nat \<Rightarrow> error + num" where
  "latest xs n = (case iloc xs (- 1) of Inl e \<Rightarrow> Inl e | Inr v \<Rightarrow> Inr (round_num v n))"

definition calculate_macd :: "bar list \<Rightarrow> int \<Rightarrow> int \<Rightarrow> int \<Rightarrow> macd_result outcome" where
  "calculate_macd df fast_period slow_period signal_period =
     (if df = [] \<or> int (length df) < slow_period
      then Error_dict ''Insufficient data for MACD calculation''
      else case ewm_mean fast_period (map Close df) of Inl e \<Rightarrow> Raised e | Inr ema_fast \<Rightarrow>
        (case ewm_mean slow_period (map Close df) of Inl e \<Rightarrow> Raised e | Inr ema_slow \<Rightarrow>
          (let ml = map2 nsub ema_fast ema_slow
           in case ewm_mean signal_period ml of Inl e \<Rightarrow> Raised e | Inr sl \<Rightarrow>
             (let h = map2 nsub ml sl
              in case latest ml 4 of Inl e \<Rightarrow> Raised e | Inr lm \<Rightarrow>
                (case latest sl 4 of Inl e \<Rightarrow> Raised e | Inr ls \<Rightarrow>
                  (case latest h 4 of Inl e \<Rightarrow> Raised e | Inr lh \<Rightarrow>
                     Ok \<lparr>macd_line = ml, signal_line = sl, histogram = h,
                         macd_latest = (lm, ls, lh)\<rparr>))))))"








section \<open>Signal detector (signal_detector.py)\<close>


text \<open>\<open>str.lower()\<close> on ASCII text.\<close>

definition lower_char :: "char \<Rightarrow> char" where
  "lower_char c =
     (let n = (of_char c :: nat) in if 65 \<le> n \<and> n \<le> 90 then char_of (n + 32) else c)"

definition lower :: "string \<Rightarrow> string" where
  "lower s = map lower_char s"


definition kdj_sell_threshold :: real where
  "kdj_sell_threshold = 80"


definition check_sell_signal ::
  "int \<Rightarrow> string \<Rightarrow> num list \<Rightarrow> num list \<Rightarrow> num list \<Rightarrow> real option \<Rightarrow> error + bool" where
  "check_sell_signal index indicator macd_histogram k_series d_series threshold =
     (if lower indicator = ''macd''
      then (if index < 2 then Inr False
            else case iloc macd_histogram (index - 2) of Inl e \<Rightarrow> Inl e | Inr day_before_yesterday \<Rightarrow>
              (case iloc macd_histogram (index - 1) of Inl e \<Rightarrow> Inl e | Inr yesterday \<Rightarrow>
                (case iloc macd_histogram index of Inl e \<Rightarrow> Inl e | Inr today \<Rightarrow>
                   if isna day_before_yesterday \<or> isna yesterday \<or> isna today then Inr False
                   else (let was_rising = nlt day_before_yesterday yesterday;
                             now_declining = ngt yesterday today;
                             in_positive_territory = ngt yesterday (Some 0)
                         in Inr (was_rising \<and> now_declining \<and> in_positive_territory)))))
      else if lower indicator = ''kdj''
      then (case iloc k_series index of Inl e \<Rightarrow> Inl e | Inr k_val \<Rightarrow>
             (case iloc d_series index of Inl e \<Rightarrow> Inl e | Inr d_val \<Rightarrow>
                if isna k_val \<or> isna d_val then Inr False
                else (let thresh = (case threshold of Some t \<Rightarrow> t | None \<Rightarrow> kdj_sell_threshold)
                      in Inr (ngt k_val (Some thresh) \<and> ngt d_val (Some thresh)))))
      else Inr False)"












section \<open>Trade simulator (trading_simulator.py)\<close>

datatype trade_type = BUY | SELL

text \<open>
  \<open>_format_date\<close> prints a timestamp with \<open>strftime\<close> and anything else with \<open>str\<close>;
  the label keeps the timestamp it was printed from. The forced close writes the
  literal \<open>End of period\<close> instead.
\<close>

datatype date_label = Formatted int | Str_None | End_of_period

definition format_date :: "int option \<Rightarrow> date_label" where
  "format_date d = (case d of Some t \<Rightarrow> Formatted t | None \<Rightarrow> Str_None)"

record sell_fields =
  proceeds :: num
  net_proceeds :: num
  profit_loss :: num
  profit_loss_percentage :: num
  hold_days :: int

record trade =
  ttype :: trade_type
  signal_date :: date_label
  execution_date :: date_label
  signal_price :: num
  execution_price :: num
  tshares :: num
  commission :: num
  balance_after :: num
  sell_part :: "sell_fields option"

record simulator =
  initial_balance :: real
  commission_rate :: real

text \<open>The local variables of \<open>_execute_trades\<close>.\<close>

record sim_state =
  trades :: "trade list"
  balance :: num
  shares :: num
  position_open :: bool
  buy_price :: num
  buy_date :: "int option"
  pending_buy :: bool
  pending_sell :: bool
  sig_date :: "int option"

definition init_state :: "simulator \<Rightarrow> sim_state" where
  "init_state sim =
     \<lparr>trades = [], balance = Some (initial_balance sim), shares = Some 0,
      position_open = False, buy_price = Some 0, buy_date = None,
      pending_buy = False, pending_sell = False, sig_date = None\<rparr>"

text \<open>\<open>trades[-1]["commission"]\<close>: IndexError on an empty log.\<close>

definition last_commission :: "trade list \<Rightarrow> error + num" where
  "last_commission ts = (if ts = [] then Inl IndexError else Inr (commission (last ts)))"

text \<open>\<open>(current_date - buy_date).days\<close>: a timestamp minus \<open>None\<close> is a TypeError.\<close>

definition days_between :: "int \<Rightarrow> int option \<Rightarrow> error + int" where
  "days_between current b = (case b of None \<Rightarrow> Inl TypeError | Some d \<Rightarrow> Inr (current - d))"

text \<open>
  The SELL entry, shared by the pending-sell branch and the forced close, which differ
  in the price, the signal label and the signal price only.
\<close>

definition sell_trade ::
  "simulator \<Rightarrow> sim_state \<Rightarrow> num \<Rightarrow> int \<Rightarrow> date_label \<Rightarrow> num \<Rightarrow> error + sim_state" where
  "sell_trade sim st price current_date label sig_price =
     (let sell_value = nmul (shares st) price;
          comm = nmul sell_value (Some (commission_rate sim));
          net = nsub sell_value comm
      in case last_commission (trades st) of Inl e \<Rightarrow> Inl e | Inr lc \<Rightarrow>
         (let cost_basis = nadd (nmul (shares st) (buy_price st)) lc;
              pl = nsub net cost_basis;
              pl_pct = (if ngt cost_basis (Some 0) then nmul (ndiv pl cost_basis) (Some 100) else Some 0)
          in case days_between current_date (buy_date st) of Inl e \<Rightarrow> Inl e | Inr hdays \<Rightarrow>
             Inr (st\<lparr>trades := trades st @
                    [\<lparr>ttype = SELL, signal_date = label,
                      execution_date = format_date (Some current_date),
                      signal_price = round_num sig_price 2,
                      execution_price = round_num price 2,
                      tshares = round_num (shares st) 4,
                      commission = round_num comm 2,
                      balance_after = round_num net 2,
                      sell_part = Some \<lparr>proceeds = round_num sell_value 2,
                        net_proceeds = round_num net 2,
                        profit_loss = round_num pl 2,
                        profit_loss_percentage = round_num pl_pct 2,
                        hold_days = hdays\<rparr>\<rparr>],
                  balance := net\<rparr>)))"

definition buy_trade :: "simulator \<Rightarrow> bar list \<Rightarrow> nat \<Rightarrow> sim_state \<Rightarrow> sim_state" where
  "buy_trade sim df i st =
     (let current_date = date (df ! i);
          price = Open (df ! i);
          comm = nmul (balance st) (Some (commission_rate sim));
          sh = ndiv (nsub (balance st) comm) price
      in st\<lparr>shares := sh, buy_price := price, buy_date := Some current_date,
            position_open := True, pending_buy := False,
            trades := trades st @
              [\<lparr>ttype = BUY, signal_date = format_date (sig_date st),
                execution_date = format_date (Some current_date),
                signal_price = round_num (Close (df ! (i - 1))) 2,
                execution_price = round_num price 2,
                tshares = round_num sh 4,
                commission = round_num comm 2,
                balance_after = round_num (nsub (balance st) comm) 2,
                sell_part = None\<rparr>]\<rparr>)"

text \<open>One iteration of the loop \<open>for i in range(len(df))\<close>, with \<open>i < len(df)\<close>.\<close>

definition step ::
  "simulator \<Rightarrow> bar list \<Rightarrow> int list \<Rightarrow> int list \<Rightarrow> nat \<Rightarrow> sim_state \<Rightarrow> error + sim_state" where
  "step sim df buy_signals sell_signals i st =
     (let current_date = date (df ! i)
      in case list_get buy_signals i of
           Inl e \<Rightarrow> Inl e
         | Inr b \<Rightarrow>
            (if b = 1 \<and> \<not> position_open st \<and> \<not> pending_buy st
             then Inr (st\<lparr>pending_buy := True, sig_date := Some current_date\<rparr>)
             else (case list_get sell_signals i of
                     Inl e \<Rightarrow> Inl e
                   | Inr s \<Rightarrow>
                      (if s = 1 \<and> position_open st \<and> \<not> pending_sell st
                       then Inr (st\<lparr>pending_sell := True, sig_date := Some current_date\<rparr>)
                       else if pending_buy st \<and> 0 < i then Inr (buy_trade sim df i st)
                       else if pending_sell st \<and> 0 < i
                       then (case sell_trade sim st (Open (df ! i)) current_date
                                    (format_date (sig_date st)) (Close (df ! (i - 1))) of
                               Inl e \<Rightarrow> Inl e
                             | Inr st' \<Rightarrow>
                                 Inr (st'\<lparr>shares := Some 0, position_open := False,
                                          pending_sell := False\<rparr>))
                       else Inr st))))"

fun run_loop ::
  "simulator \<Rightarrow> bar list \<Rightarrow> int list \<Rightarrow> int list \<Rightarrow> nat list \<Rightarrow> sim_state \<Rightarrow> error + sim_state" where
  "run_loop sim df bs ss [] st = Inr st"
| "run_loop sim df bs ss (i # is) st =
     (case step sim df bs ss i st of Inl e \<Rightarrow> Inl e | Inr st' \<Rightarrow> run_loop sim df bs ss is st')"

text \<open>The forced close after the loop: \<open>df['Close'].iloc[-1]\<close>, \<open>df.index[-1]\<close>.\<close>

definition close_remaining :: "simulator \<Rightarrow> bar list \<Rightarrow> sim_state \<Rightarrow> error + sim_state" where
  "close_remaining sim df st =
     (if position_open st
      then (if df = [] then Inl IndexError
            else sell_trade sim st (Close (last df)) (date (last df)) End_of_period (Close (last df)))
      else Inr st)"

definition execute_trades ::
  "simulator \<Rightarrow> bar list \<Rightarrow> int list \<Rightarrow> int list \<Rightarrow> error + (trade list \<times> num)" where
  "execute_trades sim df buy_signals sell_signals =
     (case run_loop sim df buy_signals sell_signals [0..<length df] (init_state sim) of
        Inl e \<Rightarrow> Inl e
      | Inr st \<Rightarrow> (case close_remaining sim df st of
                     Inl e \<Rightarrow> Inl e
                   | Inr st' \<Rightarrow> Inr (trades st', balance st')))"













section \<open>Scan results: exclude rules and sorting (market_scanner.py)\<close>

text \<open>
  A scan result is a dictionary whose entries \<open>trading_summary\<close> and \<open>statistics\<close> are
  dictionaries from field names to numbers or strings. The numbers of a result are
  rounded finite values; NaN is not among the modelled values.
\<close>

datatype val = VNum real | VStr string

record scan_result =
  stock :: string
  trading_summary :: "string \<rightharpoonup> val"
  statistics :: "string \<rightharpoonup> val"

text \<open>Python's truth value, and \<open>a or b\<close> on the results of \<open>dict.get\<close>.\<close>

definition truthy :: "val \<Rightarrow> bool" where
  "truthy v = (case v of VNum x \<Rightarrow> x \<noteq> 0 | VStr s \<Rightarrow> s \<noteq> [])"

definition py_or :: "val option \<Rightarrow> val option \<Rightarrow> val option" where
  "py_or a b = (case a of Some v \<Rightarrow> if truthy v then Some v else b | None \<Rightarrow> b)"

record exclude_rule =
  field :: string
  operator :: string
  rule_value :: real

text \<open>
  \<open>_evaluate_condition\<close>: ordering a string against a number raises TypeError, which
  the function catches and answers with \<open>False\<close>; \<open>==\<close> and \<open>!=\<close> never raise.
\<close>

definition evaluate_condition :: "val \<Rightarrow> string \<Rightarrow> real \<Rightarrow> bool" where
  "evaluate_condition field_value op v =
     (case field_value of
        VNum x \<Rightarrow>
          (if op = ''<'' then x < v
           else if op = ''>'' then x > v
           else if op = ''<='' then x \<le> v
           else if op = ''>='' then x \<ge> v
           else if op = ''=='' then x = v
           else if op = ''!='' then x \<noteq> v
           else False)
      | VStr s \<Rightarrow>
          (if op = ''<'' \<or> op = ''>'' \<or> op = ''<='' \<or> op = ''>='' then False
           else if op = ''=='' then False
           else if op = ''!='' then True
           else False))"

text \<open>The inner loop over the rules, with its \<open>continue\<close> and \<open>break\<close>.\<close>

fun excluded :: "scan_result \<Rightarrow> exclude_rule list \<Rightarrow> bool" where
  "excluded r [] = False"
| "excluded r (rule # rules) =
     (case py_or (trading_summary r (field rule)) (statistics r (field rule)) of
        None \<Rightarrow> excluded r rules
      | Some field_value \<Rightarrow>
          if evaluate_condition field_value (operator rule) (rule_value rule) then True
          else excluded r rules)"

definition apply_exclude_rules :: "scan_result list \<Rightarrow> exclude_rule list \<Rightarrow> scan_result list" where
  "apply_exclude_rules results rules = filter (\<lambda>r. \<not> excluded r rules) results"

record sort_rule =
  sort_field :: string
  order :: string

text \<open>\<open>summary.get(field) or stats.get(field) or 0\<close>.\<close>

definition sort_value :: "scan_result \<Rightarrow> string \<Rightarrow> val" where
  "sort_value r f =
     (case py_or (trading_summary r f) (statistics r f) of
        Some v \<Rightarrow> if truthy v then v else VNum 0
      | None \<Rightarrow> VNum 0)"

definition get_sort_key :: "sort_rule list \<Rightarrow> scan_result \<Rightarrow> val list" where
  "get_sort_key rules r =
     map (\<lambda>rule. let v = sort_value r (sort_field rule)
                 in if lower (order rule) = ''desc''
                    then (case v of VNum x \<Rightarrow> VNum (- x) | VStr s \<Rightarrow> VStr s)
                    else v) rules"

text \<open>
  Python compares two key tuples at the first position where they differ; a number
  against a string there is a TypeError. \<open>sorted\<close> is a stable comparison sort: where
  all keys are comparable its result is the stable sort by key; where two keys are
  not, no comparison sort can order the list without comparing a number with a string,
  and \<open>sorted\<close> raises the TypeError. The order below places numbers before strings;
  \<open>apply_sorting\<close> uses it on comparable keys only.
\<close>

fun comparable :: "val list \<Rightarrow> val list \<Rightarrow> bool" where
  "comparable (x # xs) (y # ys) =
     (if x = y then comparable xs ys
      else (case (x, y) of (VNum _, VNum _) \<Rightarrow> True | (VStr _, VStr _) \<Rightarrow> True | _ \<Rightarrow> False))"
| "comparable _ _ = True"

instantiation val :: linorder
begin

definition less_eq_val :: "val \<Rightarrow> val \<Rightarrow> bool" where
  "less_eq_val a b =
     (case a of
        VNum x \<Rightarrow> (case b of VNum y \<Rightarrow> x \<le> y | VStr _ \<Rightarrow> True)
      | VStr s \<Rightarrow> (case b of VNum _ \<Rightarrow> False | VStr t \<Rightarrow> s \<le> t))"

definition less_val :: "val \<Rightarrow> val \<Rightarrow> bool" where
  "less_val a b = (a \<le> b \<and> \<not> b \<le> (a::val))"

instance
  by standard (auto simp: less_eq_val_def less_val_def split: val.splits)

end

definition default_sort_rules :: "sort_rule list" where
  "default_sort_rules = [\<lparr>sort_field = ''return_percentage'', order = ''desc''\<rparr>]"

definition apply_sorting :: "scan_result list \<Rightarrow> sort_rule list option \<Rightarrow> error + scan_result list" where
  "apply_sorting results sort_rules =
     (if results = [] then Inr results
      else let rules = (case sort_rules of None \<Rightarrow> default_sort_rules
                        | Some rs \<Rightarrow> if rs = [] then default_sort_rules else rs);
               keys = map (get_sort_key rules) results
        in if list_all (\<lambda>a. list_all (comparable a) keys) keys
           then Inr (sort_key (get_sort_key rules) results)
           else Inl TypeError)"

section \<open>Notions used to state the simulator's properties\<close>

text \<open>Number of BUY entries minus number of SELL entries of a trade log.\<close>

definition net_position :: "trade list \<Rightarrow> int" where
  "net_position ts =
     int (length (filter (\<lambda>t. ttype t = BUY) ts)) - int (length (filter (\<lambda>t. ttype t = SELL) ts))"

text \<open>The local variables when the loop reaches bar \<open>i\<close>: after the bars before \<open>i\<close>.\<close>

definition state_before ::
  "simulator \<Rightarrow> bar list \<Rightarrow> int list \<Rightarrow> int list \<Rightarrow> nat \<Rightarrow> error + sim_state" where
  "state_before sim df bs ss i = run_loop sim df bs ss [0..<i] (init_state sim)"

text \<open>
  A buy signal raised at bar \<open>i\<close> while flat with no buy pending; a sell signal raised at
  bar \<open>i\<close> while a position is open; a position still open when the loop has ended.
\<close>

definition raised_buy :: "simulator \<Rightarrow> bar list \<Rightarrow> int list \<Rightarrow> int list \<Rightarrow> nat \<Rightarrow> bool" where
  "raised_buy sim df bs ss i =
     (case state_before sim df bs ss i of
        Inl e \<Rightarrow> False
      | Inr st \<Rightarrow> bs ! i = 1 \<and> \<not> position_open st \<and> \<not> pending_buy st)"

definition raised_sell :: "simulator \<Rightarrow> bar list \<Rightarrow> int list \<Rightarrow> int list \<Rightarrow> nat \<Rightarrow> bool" where
  "raised_sell sim df bs ss i =
     (case state_before sim df bs ss i of
        Inl e \<Rightarrow> False
      | Inr st \<Rightarrow> ss ! i = 1 \<and> position_open st)"

definition open_at_end :: "simulator \<Rightarrow> bar list \<Rightarrow> int list \<Rightarrow> int list \<Rightarrow> bool" where
  "open_at_end sim df bs ss =
     (case state_before sim df bs ss (length df) of Inl e \<Rightarrow> False | Inr st \<Rightarrow> position_open st)"

text \<open>
  A log entry filled at the bar after its signal bar \<open>i\<close>: dated by both bars, priced
  at the rounded open of the later one, and raised as its type requires.
\<close>

definition from_signal ::
  "simulator \<Rightarrow> bar list \<Rightarrow> int list \<Rightarrow> int list \<Rightarrow> trade \<Rightarrow> nat \<Rightarrow> bool" where
  "from_signal sim df bs ss t i =
     (signal_date t = Formatted (date (df ! i)) \<and>
      execution_date t = Formatted (date (df ! Suc i)) \<and>
      execution_price t = round_num (Open (df ! Suc i)) 2 \<and>
      (case ttype t of BUY \<Rightarrow> sell_part t = None \<and> raised_buy sim df bs ss i
       | SELL \<Rightarrow> sell_part t \<noteq> None \<and> raised_sell sim df bs ss i))"

text \<open>The forced close of the position at the end of the series.\<close>

definition forced_close :: "bar list \<Rightarrow> trade \<Rightarrow> bool" where
  "forced_close df t =
     (ttype t = SELL \<and> signal_date t = End_of_period \<and> sell_part t \<noteq> None \<and>
      execution_date t = Formatted (date (last df)) \<and>
      execution_price t = round_num (Close (last df)) 2)"

text \<open>Loop invariants, at the moment the loop reaches bar \<open>k\<close>.\<close>

definition inv_core :: "bar list \<Rightarrow> nat \<Rightarrow> sim_state \<Rightarrow> bool" where
  "inv_core df k st =
     ((pending_buy st \<longrightarrow> \<not> position_open st) \<and>
      (pending_sell st \<longrightarrow> position_open st) \<and>
      (position_open st \<longrightarrow> trades st \<noteq> [] \<and> buy_date st \<noteq> None) \<and>
      (pending_buy st \<or> pending_sell st \<longrightarrow> 0 < k \<and> sig_date st = Some (date (df ! (k - 1)))))"

definition inv_count :: "sim_state \<Rightarrow> bool" where
  "inv_count st =
     (net_position (trades st) = (if position_open st then 1 else 0) \<and>
      (\<forall>j\<le>length (trades st). net_position (take j (trades st)) \<in> {0, 1}))"

definition inv_prov ::
  "simulator \<Rightarrow> bar list \<Rightarrow> int list \<Rightarrow> int list \<Rightarrow> nat \<Rightarrow> sim_state \<Rightarrow> bool" where
  "inv_prov sim df bs ss k st =
     ((\<forall>t\<in>set (trades st). \<exists>i. Suc i < k \<and> from_signal sim df bs ss t i) \<and>
      (pending_buy st \<longrightarrow> raised_buy sim df bs ss (k - 1)) \<and>
      (pending_sell st \<longrightarrow> raised_sell sim df bs ss (k - 1)))"

section \<open>Concrete inputs\<close>

text \<open>The settings of \<open>config.py\<close>, and two bars with a buy signal on the first.\<close>

definition cx_sim :: simulator where
  "cx_sim = \<lparr>initial_balance = 10000, commission_rate = 1 / 1000\<rparr>"

definition cx_bars :: "bar list" where
  "cx_bars =
     [\<lparr>date = 1, Open = Some 10, High = Some 10, Low = Some 10, Close = Some 10, Volume = Some 1\<rparr>,
      \<lparr>date = 2, Open = Some (10123 / 1000), High = Some 11, Low = Some 10, Close = Some 11,
        Volume = Some 1\<rparr>]"

definition cx_buy :: trade where
  "cx_buy =
     \<lparr>ttype = BUY, signal_date = Formatted 1, execution_date = Formatted 2,
      signal_price = Some 10, execution_price = Some (253 / 25),
      tshares = Some (1233577 / 1250), commission = Some 10, balance_after = Some 9990,
      sell_part = None\<rparr>"

definition cx_sell :: trade where
  "cx_sell =
     \<lparr>ttype = SELL, signal_date = End_of_period, execution_date = Formatted 2,
      signal_price = Some 11, execution_price = Some 11, tshares = Some (1233577 / 1250),
      commission = Some (543 / 50), balance_after = Some (542231 / 50),
      sell_part = Some \<lparr>proceeds = Some (271387 / 25), net_proceeds = Some (542231 / 50),
        profit_loss = Some (42231 / 50), profit_loss_percentage = Some (169 / 20),
        hold_days = 0\<rparr>\<rparr>"

text \<open>A series of 26 bars: a close of 10 on the first, of 11 on the others.\<close>

definition cx_series :: "bar list" where
  "cx_series = cx_bars ! 0 # replicate 25 (cx_bars ! 1)"


section \<open>Notions used to state the indicators' properties\<close>


text \<open>
  The exponential moving average as the claim words it: the recurrence seeded by the
  first value, \<open>EMA_0 = x_0\<close> and \<open>EMA_t = (1 - \<alpha>) EMA_(t-1) + \<alpha> x_t\<close>.
\<close>

fun ema_from :: "real \<Rightarrow> num \<Rightarrow> num list \<Rightarrow> num list" where
  "ema_from alpha prev [] = []"
| "ema_from alpha prev (x # xs) =
     (let e = nadd (nmul (Some (1 - alpha)) prev) (nmul (Some alpha) x)
      in e # ema_from alpha e xs)"

definition ema_recurrence :: "real \<Rightarrow> num list \<Rightarrow> num list" where
  "ema_recurrence alpha xs = (case xs of [] \<Rightarrow> [] | x # rest \<Rightarrow> x # ema_from alpha x rest)"

text \<open>
  The adjusted exponentially weighted mean of pandas: at position \<open>t\<close> the average of
  the values observed up to \<open>t\<close>, the value at position \<open>i\<close> weighted by
  \<open>(1 - \<alpha>) ^ (t - i)\<close>; missing while nothing has been observed.
\<close>

definition weighted_sum :: "real \<Rightarrow> num list \<Rightarrow> nat \<Rightarrow> real" where
  "weighted_sum alpha xs t =
     (\<Sum>i\<le>t. case xs ! i of Some x \<Rightarrow> (1 - alpha) ^ (t - i) * x | None \<Rightarrow> 0)"

definition weight_total :: "real \<Rightarrow> num list \<Rightarrow> nat \<Rightarrow> real" where
  "weight_total alpha xs t =
     (\<Sum>i\<le>t. case xs ! i of Some x \<Rightarrow> (1 - alpha) ^ (t - i) | None \<Rightarrow> 0)"

definition ewm_adjusted :: "real \<Rightarrow> num list \<Rightarrow> nat \<Rightarrow> num" where
  "ewm_adjusted alpha xs t =
     (if list_all (\<lambda>x. x = None) (take (Suc t) xs) then None
      else Some (weighted_sum alpha xs t / weight_total alpha xs t))"

text \<open>The two sums over a prefix, read from its last entry backwards.\<close>

fun wnum :: "real \<Rightarrow> num list \<Rightarrow> real" where
  "wnum q [] = 0"
| "wnum q (x # xs) = (case x of Some v \<Rightarrow> v | None \<Rightarrow> 0) + q * wnum q xs"

fun wden :: "real \<Rightarrow> num list \<Rightarrow> real" where
  "wden q [] = 0"
| "wden q (x # xs) = (case x of Some v \<Rightarrow> 1 | None \<Rightarrow> 0) + q * wden q xs"

text \<open>The state of the \<open>ewm\<close> loop after the entries \<open>pre\<close>, with \<open>q = 1 - \<alpha>\<close>.\<close>

definition ewm_inv :: "real \<Rightarrow> ewm_state \<Rightarrow> num list \<Rightarrow> bool" where
  "ewm_inv q st pre =
     (if list_all (\<lambda>x. x = None) pre
      then weighted st = None \<and> old_wt st = 1 \<and> nobs st = 0
      else 0 < wden q (rev pre) \<and> old_wt st = wden q (rev pre) \<and> 1 \<le> nobs st \<and>
           weighted st = Some (wnum q (rev pre) / wden q (rev pre)))"





section \<open>Notions used to state the scanner's properties\<close>

text \<open>The rules that \<open>_apply_sorting\<close> sorts by: the default when none are given.\<close>

definition effective_rules :: "sort_rule list option \<Rightarrow> sort_rule list" where
  "effective_rules sort_rules =
     (case sort_rules of None \<Rightarrow> default_sort_rules
      | Some rs \<Rightarrow> if rs = [] then default_sort_rules else rs)"

text \<open>
  A field looked up in the summary record first and in the statistics record second,
  a missing value counting as 0; and the sort key built from it, negated for a
  descending rule.
\<close>

definition lookup_number :: "scan_result \<Rightarrow> string \<Rightarrow> real" where
  "lookup_number r f =
     (case trading_summary r f of
        Some (VNum x) \<Rightarrow> x
      | Some (VStr s) \<Rightarrow> 0
      | None \<Rightarrow> (case statistics r f of Some (VNum x) \<Rightarrow> x | Some (VStr s) \<Rightarrow> 0 | None \<Rightarrow> 0))"

definition number_key :: "sort_rule list \<Rightarrow> scan_result \<Rightarrow> real list" where
  "number_key rules r =
     map (\<lambda>rule. if lower (order rule) = ''desc'' then - lookup_number r (sort_field rule)
                 else lookup_number r (sort_field rule)) rules"

text \<open>
  A field as the simulator writes it into a result: a number wherever it is present,
  with the same value in the summary and in the statistics when it is in both (as
  \<open>success_rate\<close> is).
\<close>

definition numeric_field :: "scan_result \<Rightarrow> string \<Rightarrow> bool" where
  "numeric_field r f =
     (case trading_summary r f of
        Some (VStr s) \<Rightarrow> False
      | Some (VNum x) \<Rightarrow>
          (case statistics r f of Some (VNum y) \<Rightarrow> x = y | Some (VStr s) \<Rightarrow> False | None \<Rightarrow> True)
      | None \<Rightarrow> (case statistics r f of Some (VStr s) \<Rightarrow> False | _ \<Rightarrow> True))"

definition numeric_fields :: "scan_result list \<Rightarrow> sort_rule list \<Rightarrow> bool" where
  "numeric_fields results rules =
     list_all (\<lambda>r. list_all (\<lambda>rule. numeric_field r (sort_field rule)) rules) results"

text \<open>
  Scan results as \<open>_scan_single_stock\<close> returns them. The first is a break-even run:
  its return of 0.003 per cent is stored rounded, as 0.0.
\<close>

definition cx_result :: "string \<Rightarrow> real \<Rightarrow> real \<Rightarrow> real \<Rightarrow> scan_result" where
  "cx_result name final pct rate =
     \<lparr>stock = name,
      trading_summary = map_of
        [(''initial_balance'', VNum 10000), (''final_balance'', VNum final),
         (''total_return'', VNum (final - 10000)), (''return_percentage'', VNum pct),
         (''total_trades'', VNum 2), (''success_rate'', VNum rate),
         (''avg_days_between_trades'', VNum 5), (''buy_indicator'', VStr ''macd''),
         (''sell_indicator'', VStr ''macd'')],
      statistics = map_of
        [(''success_rate'', VNum rate), (''avg_trade_frequency'', VNum 5),
         (''total_profit'', VNum (max (final - 10000) 0)),
         (''total_loss'', VNum (min (final - 10000) 0)),
         (''avg_profit'', VNum (max (final - 10000) 0)),
         (''avg_loss'', VNum (min (final - 10000) 0)),
         (''max_profit'', VNum (max (final - 10000) 0)),
         (''max_loss'', VNum (min (final - 10000) 0)),
         (''avg_hold_days'', VNum 5)]\<rparr>"

definition cx_exclude :: exclude_rule where
  "cx_exclude = \<lparr>field = ''return_percentage'', operator = ''<'', rule_value = 10\<rparr>"

definition cx_sort :: "sort_rule list" where
  "cx_sort = [\<lparr>sort_field = ''success_rate'', order = ''desc''\<rparr>,
              \<lparr>sort_field = ''return_percentage'', order = ''desc''\<rparr>]"

section \<open>The trade simulator: loop invariants\<close>

lemma run_loop_append:
  "run_loop sim df bs ss (xs @ ys) st =
     (case run_loop sim df bs ss xs st of Inl e \<Rightarrow> Inl e | Inr st' \<Rightarrow> run_loop sim df bs ss ys st')"
  by (induction xs arbitrary: st) (auto split: sum.splits)

lemma state_before_0: "state_before sim df bs ss 0 = Inr (init_state sim)"
  by (simp add: state_before_def)

lemma state_before_Suc:
  "state_before sim df bs ss (Suc i) =
     (case state_before sim df bs ss i of Inl e \<Rightarrow> Inl e | Inr st \<Rightarrow> step sim df bs ss i st)"
  by (simp add: state_before_def run_loop_append split: sum.splits)

lemma sell_trade_ok:
  assumes "trades st \<noteq> []" "buy_date st \<noteq> None"
  shows "\<exists>st'. sell_trade sim st p d l sp = Inr st'"
  using assms by (auto simp: sell_trade_def Let_def last_commission_def days_between_def split: option.splits)

lemma sell_trade_result:
  assumes "sell_trade sim st p d l sp = Inr st'"
  shows "\<exists>t. trades st' = trades st @ [t] \<and> ttype t = SELL \<and> signal_date t = l \<and>
             execution_date t = Formatted d \<and> execution_price t = round_num p 2 \<and>
             sell_part t \<noteq> None \<and>
             balance st' = nsub (nmul (shares st) p) (nmul (nmul (shares st) p) (Some (commission_rate sim))) \<and>
             position_open st' = position_open st \<and> pending_buy st' = pending_buy st \<and>
             pending_sell st' = pending_sell st \<and> sig_date st' = sig_date st \<and>
             buy_date st' = buy_date st"
  using assms
  by (auto simp: sell_trade_def Let_def last_commission_def days_between_def format_date_def
      split: option.splits if_splits)

lemma step_core:
  assumes "inv_core df k st" "k < length bs" "k < length ss"
  shows "\<exists>st'. step sim df bs ss k st = Inr st' \<and> inv_core df (Suc k) st'"
  using assms
  by (auto simp: step_def inv_core_def Let_def list_get_def buy_trade_def sell_trade_def
      last_commission_def days_between_def split: option.splits)

lemma net_position_snoc:
  "net_position (ts @ [t]) = net_position ts + (if ttype t = BUY then 1 else - 1)"
  by (cases "ttype t") (auto simp: net_position_def)

lemma net_position_Nil: "net_position [] = 0"
  by (simp add: net_position_def)

lemma prefixes_snoc:
  assumes "\<forall>j\<le>length ts. net_position (take j ts) \<in> {0, 1}" "net_position (ts @ [t]) \<in> {0, 1}"
  shows "\<forall>j\<le>length (ts @ [t]). net_position (take j (ts @ [t])) \<in> {0, 1}"
proof (intro allI impI)
  fix j assume j: "j \<le> length (ts @ [t])"
  show "net_position (take j (ts @ [t])) \<in> {0, 1}"
  proof (cases "j \<le> length ts")
    case True
    then show ?thesis using assms(1) by simp
  next
    case False
    with j have "j = Suc (length ts)" by simp
    then show ?thesis using assms(2) by simp
  qed
qed

lemma step_count:
  assumes "inv_core df k st" "inv_count st" "step sim df bs ss k st = Inr st'"
  shows "inv_count st'"
proof -
  have keep: "trades st' = trades st \<and> position_open st' = position_open st \<Longrightarrow> inv_count st'"
    using assms(2) by (simp add: inv_count_def)
  consider (same) "trades st' = trades st" "position_open st' = position_open st"
    | (buy) "\<not> position_open st" "position_open st'" "\<exists>t. trades st' = trades st @ [t] \<and> ttype t = BUY"
    | (sell) "position_open st" "\<not> position_open st'" "\<exists>t. trades st' = trades st @ [t] \<and> ttype t = SELL"
    using assms(1,3)
    by (auto simp: step_def inv_core_def Let_def list_get_def buy_trade_def
        split: option.splits if_splits sum.splits dest!: sell_trade_result)
  then show ?thesis
  proof cases
    case same
    then show ?thesis using keep by simp
  next
    case buy
    then obtain t where t: "trades st' = trades st @ [t]" "ttype t = BUY" by blast
    have n: "net_position (trades st @ [t]) = 1"
      using assms(2) buy(1) t(2) by (simp add: inv_count_def net_position_snoc)
    show ?thesis
      unfolding inv_count_def t(1)
      using n buy(2) prefixes_snoc[of "trades st" t] assms(2) by (simp add: inv_count_def)
  next
    case sell
    then obtain t where t: "trades st' = trades st @ [t]" "ttype t = SELL" by blast
    have n: "net_position (trades st @ [t]) = 0"
      using assms(2) sell(1) t(2) by (simp add: inv_count_def net_position_snoc)
    show ?thesis
      unfolding inv_count_def t(1)
      using n sell(2) prefixes_snoc[of "trades st" t] assms(2) by (simp add: inv_count_def)
  qed
qed

lemma step_cases:
  assumes core: "inv_core df k st"
    and stp: "step sim df bs ss k st = Inr st'"
    and k: "k < length bs" "k < length ss"
  shows "(bs ! k = 1 \<and> \<not> position_open st \<and> \<not> pending_buy st \<and>
            st' = st\<lparr>pending_buy := True, sig_date := Some (date (df ! k))\<rparr>)
       \<or> (ss ! k = 1 \<and> position_open st \<and> \<not> pending_sell st \<and>
            st' = st\<lparr>pending_sell := True, sig_date := Some (date (df ! k))\<rparr>)
       \<or> (pending_buy st \<and> 0 < k \<and> st' = buy_trade sim df k st)
       \<or> (pending_sell st \<and> 0 < k \<and> \<not> pending_buy st \<and>
            (\<exists>s. sell_trade sim st (Open (df ! k)) (date (df ! k)) (format_date (sig_date st))
               (Close (df ! (k - 1))) = Inr s \<and>
             st' = s\<lparr>shares := Some 0, position_open := False, pending_sell := False\<rparr>))
       \<or> (st' = st \<and> \<not> pending_buy st \<and> \<not> pending_sell st)"
proof -
  have g: "list_get bs k = Inr (bs ! k)" "list_get ss k = Inr (ss ! k)"
    using k by (simp_all add: list_get_def)
  have p: "pending_buy st \<or> pending_sell st \<Longrightarrow> 0 < k"
    "pending_buy st \<Longrightarrow> \<not> position_open st" "pending_sell st \<Longrightarrow> position_open st"
    using core by (auto simp: inv_core_def)
  have stp': "(if bs ! k = 1 \<and> \<not> position_open st \<and> \<not> pending_buy st
         then Inr (st\<lparr>pending_buy := True, sig_date := Some (date (df ! k))\<rparr>)
         else if ss ! k = 1 \<and> position_open st \<and> \<not> pending_sell st
           then Inr (st\<lparr>pending_sell := True, sig_date := Some (date (df ! k))\<rparr>)
           else if pending_buy st \<and> 0 < k then Inr (buy_trade sim df k st)
           else if pending_sell st \<and> 0 < k
           then (case sell_trade sim st (Open (df ! k)) (date (df ! k)) (format_date (sig_date st))
                        (Close (df ! (k - 1))) of
                   Inl e \<Rightarrow> Inl e
                 | Inr s \<Rightarrow> Inr (s\<lparr>shares := Some 0, position_open := False, pending_sell := False\<rparr>))
           else Inr st) = Inr st'"
    using stp unfolding step_def Let_def g by (simp only: sum.case)
  show ?thesis
  proof (cases "bs ! k = 1 \<and> \<not> position_open st \<and> \<not> pending_buy st")
    case True
    from stp'[unfolded if_P[OF True]] have "st' = st\<lparr>pending_buy := True, sig_date := Some (date (df ! k))\<rparr>"
      by simp
    then show ?thesis using True by blast
  next
    case nb: False
    note s1 = stp'[unfolded if_not_P[OF nb]]
    show ?thesis
    proof (cases "ss ! k = 1 \<and> position_open st \<and> \<not> pending_sell st")
      case True
      from s1[unfolded if_P[OF True]] have "st' = st\<lparr>pending_sell := True, sig_date := Some (date (df ! k))\<rparr>"
        by simp
      then show ?thesis using True by blast
    next
      case ns: False
      note s2 = s1[unfolded if_not_P[OF ns]]
      show ?thesis
      proof (cases "pending_buy st")
        case True
        then have c: "pending_buy st \<and> 0 < k" using p by simp
        from s2[unfolded if_P[OF c]] have "st' = buy_trade sim df k st" by simp
        then show ?thesis using c by blast
      next
        case npb: False
        then have nc: "\<not> (pending_buy st \<and> 0 < k)" by simp
        note s3 = s2[unfolded if_not_P[OF nc]]
        show ?thesis
        proof (cases "pending_sell st")
          case True
          then have c: "pending_sell st \<and> 0 < k" using p by simp
          from s3[unfolded if_P[OF c]]
          have "\<exists>s. sell_trade sim st (Open (df ! k)) (date (df ! k)) (format_date (sig_date st))
               (Close (df ! (k - 1))) = Inr s \<and>
             st' = s\<lparr>shares := Some 0, position_open := False, pending_sell := False\<rparr>"
            by (cases "sell_trade sim st (Open (df ! k)) (date (df ! k)) (format_date (sig_date st))
               (Close (df ! (k - 1)))") auto
          then show ?thesis using c npb by blast
        next
          case False
          then have nc2: "\<not> (pending_sell st \<and> 0 < k)" by simp
          from s3[unfolded if_not_P[OF nc2]] have "st' = st" by simp
          then show ?thesis using npb False by blast
        qed
      qed
    qed
  qed
qed

lemma step_prov:
  assumes core: "inv_core df k st" and prov: "inv_prov sim df bs ss k st"
    and sb: "state_before sim df bs ss k = Inr st"
    and stp: "step sim df bs ss k st = Inr st'"
    and k: "k < length bs" "k < length ss"
  shows "inv_prov sim df bs ss (Suc k) st'"
proof -
  have old: "\<forall>t\<in>set (trades st). \<exists>i. Suc i < Suc k \<and> from_signal sim df bs ss t i"
    using prov unfolding inv_prov_def by (meson less_Suc_eq)
  have rb: "bs ! k = 1 \<Longrightarrow> \<not> position_open st \<Longrightarrow> \<not> pending_buy st \<Longrightarrow> raised_buy sim df bs ss k"
    using sb by (simp add: raised_buy_def)
  have rs: "ss ! k = 1 \<Longrightarrow> position_open st \<Longrightarrow> raised_sell sim df bs ss k"
    using sb by (simp add: raised_sell_def)
  consider (sigbuy) "bs ! k = 1" "\<not> position_open st" "\<not> pending_buy st"
        "st' = st\<lparr>pending_buy := True, sig_date := Some (date (df ! k))\<rparr>"
    | (sigsell) "ss ! k = 1" "position_open st" "\<not> pending_sell st"
        "st' = st\<lparr>pending_sell := True, sig_date := Some (date (df ! k))\<rparr>"
    | (buy) "pending_buy st" "0 < k" "st' = buy_trade sim df k st"
    | (sell) "pending_sell st" "0 < k" "\<not> pending_buy st"
        "\<exists>s. sell_trade sim st (Open (df ! k)) (date (df ! k)) (format_date (sig_date st))
               (Close (df ! (k - 1))) = Inr s \<and>
             st' = s\<lparr>shares := Some 0, position_open := False, pending_sell := False\<rparr>"
    | (idle) "st' = st" "\<not> pending_buy st" "\<not> pending_sell st"
    using step_cases[OF core stp k] by blast
  then show ?thesis
  proof cases
    case sigbuy
    then show ?thesis
      using old rb core by (auto simp: inv_prov_def inv_core_def)
  next
    case sigsell
    then show ?thesis
      using old rs core by (auto simp: inv_prov_def inv_core_def)
  next
    case buy
    have sd: "sig_date st = Some (date (df ! (k - 1)))"
      using core buy(1) by (simp add: inv_core_def)
    have r: "raised_buy sim df bs ss (k - 1)"
      using prov buy(1) by (simp add: inv_prov_def)
    have nps: "\<not> pending_sell st"
      using core buy(1) by (auto simp: inv_core_def)
    obtain t where t: "trades st' = trades st @ [t]" "from_signal sim df bs ss t (k - 1)"
      using buy(2,3) sd r
      by (simp add: buy_trade_def Let_def from_signal_def format_date_def)
    have "\<forall>t\<in>set (trades st'). \<exists>i. Suc i < Suc k \<and> from_signal sim df bs ss t i"
      using old t buy(2) by (auto intro: exI[of _ "k - 1"])
    moreover have "\<not> pending_buy st'" "\<not> pending_sell st'"
      using buy(3) nps by (simp_all add: buy_trade_def Let_def)
    ultimately show ?thesis by (simp add: inv_prov_def)
  next
    case sell
    then obtain s where s: "sell_trade sim st (Open (df ! k)) (date (df ! k)) (format_date (sig_date st))
               (Close (df ! (k - 1))) = Inr s"
      and st': "st' = s\<lparr>shares := Some 0, position_open := False, pending_sell := False\<rparr>"
      by blast
    have sd: "sig_date st = Some (date (df ! (k - 1)))"
      using core sell(1) by (simp add: inv_core_def)
    have r: "raised_sell sim df bs ss (k - 1)"
      using prov sell(1) by (simp add: inv_prov_def)
    from sell_trade_result[OF s] obtain t where
      t: "trades s = trades st @ [t]" "ttype t = SELL" "signal_date t = format_date (sig_date st)"
         "execution_date t = Formatted (date (df ! k))" "execution_price t = round_num (Open (df ! k)) 2"
         "sell_part t \<noteq> None" "pending_buy s = pending_buy st"
      by blast
    have fs: "from_signal sim df bs ss t (k - 1)"
      using t sd r sell(2) by (simp add: from_signal_def format_date_def)
    have "\<forall>t\<in>set (trades st'). \<exists>i. Suc i < Suc k \<and> from_signal sim df bs ss t i"
      using old t(1) fs sell(2) st' by (auto intro: exI[of _ "k - 1"])
    moreover have "\<not> pending_buy st'" "\<not> pending_sell st'"
      using st' t(7) sell(3) by simp_all
    ultimately show ?thesis by (simp add: inv_prov_def)
  next
    case idle
    then show ?thesis using old by (simp add: inv_prov_def)
  qed
qed

lemma inv_init:
  "inv_core df 0 (init_state sim)" "inv_count (init_state sim)"
  "inv_prov sim df bs ss 0 (init_state sim)"
  by (simp_all add: inv_core_def inv_count_def inv_prov_def init_state_def net_position_def)

lemma loop_invariant:
  assumes "k \<le> length df" "length df \<le> length bs" "length df \<le> length ss"
  shows "\<exists>st. state_before sim df bs ss k = Inr st \<and> inv_core df k st \<and> inv_count st \<and>
              inv_prov sim df bs ss k st"
  using assms(1)
proof (induction k)
  case 0
  then show ?case by (simp add: state_before_0 inv_init)
next
  case (Suc k)
  then obtain st where st: "state_before sim df bs ss k = Inr st" "inv_core df k st"
      "inv_count st" "inv_prov sim df bs ss k st"
    by auto
  have k: "k < length bs" "k < length ss" using Suc.prems assms(2,3) by simp_all
  from step_core[OF st(2) k] obtain st' where
    st': "step sim df bs ss k st = Inr st'" "inv_core df (Suc k) st'"
    by blast
  have "state_before sim df bs ss (Suc k) = Inr st'"
    by (simp add: state_before_Suc st(1) st'(1))
  moreover have "inv_count st'" using step_count[OF st(2,3) st'(1)] .
  moreover have "inv_prov sim df bs ss (Suc k) st'"
    using step_prov[OF st(2) st(4) st(1) st'(1) k] .
  ultimately show ?case using st'(2) by blast
qed

lemma execute_trades_unfold:
  "execute_trades sim df bs ss =
     (case state_before sim df bs ss (length df) of
        Inl e \<Rightarrow> Inl e
      | Inr st \<Rightarrow> (case close_remaining sim df st of
                     Inl e \<Rightarrow> Inl e
                   | Inr st' \<Rightarrow> Inr (trades st', balance st')))"
  by (simp add: execute_trades_def state_before_def)

lemma execute_trades_final:
  assumes len: "length df \<le> length bs" "length df \<le> length ss"
  shows "\<exists>st. state_before sim df bs ss (length df) = Inr st \<and> inv_core df (length df) st \<and>
           inv_count st \<and> inv_prov sim df bs ss (length df) st \<and>
           (if position_open st
            then \<exists>t bal. execute_trades sim df bs ss = Inr (trades st @ [t], bal) \<and> forced_close df t
            else execute_trades sim df bs ss = Inr (trades st, balance st))"
proof -
  from loop_invariant[OF order_refl len] obtain st where
    st: "state_before sim df bs ss (length df) = Inr st" "inv_core df (length df) st"
        "inv_count st" "inv_prov sim df bs ss (length df) st"
    by blast
  show ?thesis
  proof (cases "position_open st")
    case False
    then have "execute_trades sim df bs ss = Inr (trades st, balance st)"
      by (simp add: execute_trades_unfold st(1) close_remaining_def)
    then show ?thesis using st False by auto
  next
    case True
    then have ne: "trades st \<noteq> []" "buy_date st \<noteq> None"
      using st(2) by (auto simp: inv_core_def)
    then obtain t0 where "t0 \<in> set (trades st)" by (cases "trades st") auto
    then have "\<exists>i. Suc i < length df" using st(4) by (auto simp: inv_prov_def)
    then have df: "df \<noteq> []" by auto
    from sell_trade_ok[OF ne] obtain s where
      s: "sell_trade sim st (Close (last df)) (date (last df)) End_of_period (Close (last df)) = Inr s"
      by blast
    from sell_trade_result[OF s] obtain t where
      t: "trades s = trades st @ [t]" "ttype t = SELL" "signal_date t = End_of_period"
         "execution_date t = Formatted (date (last df))"
         "execution_price t = round_num (Close (last df)) 2" "sell_part t \<noteq> None"
      by blast
    have "execute_trades sim df bs ss = Inr (trades st @ [t], balance s)"
      using True df s t(1) by (simp add: execute_trades_unfold st(1) close_remaining_def)
    moreover have "forced_close df t" using t by (simp add: forced_close_def)
    ultimately show ?thesis using st True by auto
  qed
qed

section \<open>The trade simulator: execution prices and positions\<close>


text \<open>
  C2. Whenever the signal lists cover the series, every prefix of the returned log has
  as many BUY as SELL entries or one BUY more. Every BUY entry carries the date of a
  bar at which a buy signal was raised while flat with no buy pending; every SELL entry
  carries the date of a bar at which a sell signal was raised while a position was
  open, or is the forced close, recorded last and only while a position is open.
\<close>

theorem trade_log_position_invariant:
  assumes "length df \<le> length bs" "length df \<le> length ss"
  shows "\<exists>ts bal. execute_trades sim df bs ss = Inr (ts, bal) \<and>
     (\<forall>k\<le>length ts. net_position (take k ts) \<in> {0, 1}) \<and>
     (\<forall>j<length ts. ttype (ts ! j) = BUY \<longrightarrow>
        (\<exists>i. Suc i < length df \<and> signal_date (ts ! j) = Formatted (date (df ! i)) \<and>
              raised_buy sim df bs ss i)) \<and>
     (\<forall>j<length ts. ttype (ts ! j) = SELL \<longrightarrow>
        (\<exists>i. Suc i < length df \<and> signal_date (ts ! j) = Formatted (date (df ! i)) \<and>
              raised_sell sim df bs ss i)
        \<or> (Suc j = length ts \<and> signal_date (ts ! j) = End_of_period \<and> open_at_end sim df bs ss))"
proof -
  from execute_trades_final[OF assms, of sim] obtain st where
    st: "state_before sim df bs ss (length df) = Inr st" "inv_prov sim df bs ss (length df) st"
        "inv_count st"
    and fin: "if position_open st
            then \<exists>t bal. execute_trades sim df bs ss = Inr (trades st @ [t], bal) \<and> forced_close df t
            else execute_trades sim df bs ss = Inr (trades st, balance st)"
    by blast
  have fs: "\<And>j. j < length (trades st) \<Longrightarrow>
      \<exists>i. Suc i < length df \<and> from_signal sim df bs ss (trades st ! j) i"
    using st(2) unfolding inv_prov_def by (meson nth_mem)
  have oldb: "\<And>j. j < length (trades st) \<Longrightarrow> ttype (trades st ! j) = BUY \<Longrightarrow>
      \<exists>i. Suc i < length df \<and> signal_date (trades st ! j) = Formatted (date (df ! i)) \<and>
          raised_buy sim df bs ss i"
    using fs unfolding from_signal_def by fastforce
  have olds: "\<And>j. j < length (trades st) \<Longrightarrow> ttype (trades st ! j) = SELL \<Longrightarrow>
      \<exists>i. Suc i < length df \<and> signal_date (trades st ! j) = Formatted (date (df ! i)) \<and>
          raised_sell sim df bs ss i"
    using fs unfolding from_signal_def by fastforce
  have oe: "open_at_end sim df bs ss = position_open st"
    by (simp add: open_at_end_def st(1))
  have cnt: "\<forall>k\<le>length (trades st). net_position (take k (trades st)) \<in> {0, 1}"
    using st(3) by (simp add: inv_count_def)
  show ?thesis
  proof (cases "position_open st")
    case False
    then show ?thesis using fin oldb olds cnt by auto
  next
    case True
    then obtain t bal where t: "execute_trades sim df bs ss = Inr (trades st @ [t], bal)"
      "forced_close df t"
      using fin by auto
    have tt: "ttype t = SELL" "signal_date t = End_of_period" using t(2) by (simp_all add: forced_close_def)
    have "net_position (trades st @ [t]) = 0"
      using st(3) True tt by (simp add: inv_count_def net_position_snoc)
    then have c: "\<forall>k\<le>length (trades st @ [t]). net_position (take k (trades st @ [t])) \<in> {0, 1}"
      using prefixes_snoc[OF cnt, of t] by simp
    have b: "\<And>j. j < length (trades st @ [t]) \<Longrightarrow> ttype ((trades st @ [t]) ! j) = BUY \<Longrightarrow>
        \<exists>i. Suc i < length df \<and> signal_date ((trades st @ [t]) ! j) = Formatted (date (df ! i)) \<and>
          raised_buy sim df bs ss i"
    proof -
      fix j assume j: "j < length (trades st @ [t])" "ttype ((trades st @ [t]) ! j) = BUY"
      have "j < length (trades st)"
        using j tt(1) by (cases "j < length (trades st)") (auto simp: nth_append)
      then show "?thesis j" using oldb j(2) by (simp add: nth_append)
    qed
    have s: "\<And>j. j < length (trades st @ [t]) \<Longrightarrow> ttype ((trades st @ [t]) ! j) = SELL \<Longrightarrow>
        (\<exists>i. Suc i < length df \<and> signal_date ((trades st @ [t]) ! j) = Formatted (date (df ! i)) \<and>
              raised_sell sim df bs ss i)
        \<or> (Suc j = length (trades st @ [t]) \<and> signal_date ((trades st @ [t]) ! j) = End_of_period \<and>
            open_at_end sim df bs ss)"
    proof -
      fix j assume j: "j < length (trades st @ [t])" "ttype ((trades st @ [t]) ! j) = SELL"
      show "?thesis j"
      proof (cases "j < length (trades st)")
        case True
        then show ?thesis using olds j(2) by (simp add: nth_append)
      next
        case False
        then have "j = length (trades st)" using j(1) by simp
        then show ?thesis using tt oe \<open>position_open st\<close> by simp
      qed
    qed
    show ?thesis using t(1) c b s by blast
  qed
qed

lemma step_cong_bs:
  assumes "list_get bs i = list_get bs' i"
  shows "step sim df bs ss i st = step sim df bs' ss i st"
  unfolding step_def assms ..

lemma run_loop_cong_bs:
  assumes "\<forall>i\<in>set is. list_get bs i = list_get bs' i"
  shows "run_loop sim df bs ss is st = run_loop sim df bs' ss is st"
  using assms
proof (induction "is" arbitrary: st)
  case Nil
  then show ?case by simp
next
  case (Cons i "is")
  have s: "step sim df bs ss i st = step sim df bs' ss i st"
    using Cons.prems by (intro step_cong_bs) simp
  have r: "\<And>st'. run_loop sim df bs ss is st' = run_loop sim df bs' ss is st'"
    using Cons.IH Cons.prems by simp
  show ?case unfolding run_loop.simps s r ..
qed

lemma state_before_update:
  assumes "k \<le> n"
  shows "state_before sim df (bs[n := v]) ss k = state_before sim df bs ss k"
  unfolding state_before_def
proof (rule run_loop_cong_bs, rule ballI)
  fix i assume "i \<in> set [0..<k]"
  then have "i \<noteq> n" using assms by auto
  then show "list_get (bs[n := v]) i = list_get bs i"
    by (simp add: list_get_def)
qed

text \<open>
  C10. A buy signal raised on the final bar while flat with no buy pending leaves no
  trace: the simulator returns the log and the balance as they stood before the final
  bar, exactly what it returns when that signal is cleared, and no forced close is
  made, since no position is open at the end of the series.
\<close>

theorem final_bar_buy_signal_discarded:
  assumes df: "df \<noteq> []" and len: "length df \<le> length bs" "length df \<le> length ss"
    and raised: "raised_buy sim df bs ss (length df - 1)"
  shows "\<exists>st. state_before sim df bs ss (length df - 1) = Inr st \<and>
           execute_trades sim df bs ss = Inr (trades st, balance st) \<and>
           execute_trades sim df (bs[length df - 1 := 0]) ss = Inr (trades st, balance st) \<and>
           \<not> open_at_end sim df bs ss"
proof -
  let ?n = "length df - 1"
  let ?bs' = "bs[?n := 0]"
  have n: "Suc ?n = length df" "?n < length bs" "?n < length ss" "?n \<le> length df"
    using df len by (cases df; simp)+
  from loop_invariant[OF n(4) len, of sim] obtain st where
    st: "state_before sim df bs ss ?n = Inr st" "inv_core df ?n st"
    by blast
  have flat: "bs ! ?n = 1" "\<not> position_open st" "\<not> pending_buy st"
    using raised st(1) by (simp_all add: raised_buy_def)
  have nps: "\<not> pending_sell st" using st(2) flat(2) by (auto simp: inv_core_def)
  have step1: "step sim df bs ss ?n st = Inr (st\<lparr>pending_buy := True, sig_date := Some (date (df ! ?n))\<rparr>)"
    using flat n(2) by (simp add: step_def list_get_def)
  have step2: "step sim df ?bs' ss ?n st = Inr st"
    using flat nps n(2,3) by (simp add: step_def list_get_def)
  have e1: "state_before sim df bs ss (length df) = Inr (st\<lparr>pending_buy := True, sig_date := Some (date (df ! ?n))\<rparr>)"
    using state_before_Suc[of sim df bs ss ?n] step1 st(1) n(1) by simp
  have "state_before sim df ?bs' ss ?n = Inr st"
    using state_before_update[of ?n ?n sim df bs 0 ss] st(1) by simp
  then have e2: "state_before sim df ?bs' ss (length df) = Inr st"
    using state_before_Suc[of sim df ?bs' ss ?n] step2 n(1) by simp
  have "execute_trades sim df bs ss = Inr (trades st, balance st)"
    using e1 flat(2) by (simp add: execute_trades_unfold close_remaining_def)
  moreover have "execute_trades sim df ?bs' ss = Inr (trades st, balance st)"
    using e2 flat(2) by (simp add: execute_trades_unfold close_remaining_def)
  moreover have "\<not> open_at_end sim df bs ss"
    using e1 flat(2) by (simp add: open_at_end_def)
  ultimately show ?thesis using st(1) by blast
qed

section \<open>The trade simulator on a concrete series\<close>

lemma cx_run:
  "execute_trades cx_sim cx_bars [1, 0] [0, 0] = Inr ([cx_buy, cx_sell], Some (109780110 / 10123))"
  by code_simp

lemma cx_lengths:
  "length cx_bars \<le> length [1, 0 :: int]" "length cx_bars \<le> length [0, 0 :: int]"
  "length cx_bars = 2"
  by (simp_all add: cx_bars_def)



text \<open>
  The same run under C2: one position after the BUY, none after the forced close; the
  BUY comes from the signal raised at the first bar.
\<close>

theorem trade_log_position_invariant_witness:
  "net_position (take 1 [cx_buy, cx_sell]) \<in> {0, 1} \<and>
   net_position (take 2 [cx_buy, cx_sell]) \<in> {0, 1} \<and>
   raised_buy cx_sim cx_bars [1, 0] [0, 0] 0 \<and>
   open_at_end cx_sim cx_bars [1, 0] [0, 0]"
proof -
  from trade_log_position_invariant[OF cx_lengths(1,2), of cx_sim]
  obtain ts bal where e: "execute_trades cx_sim cx_bars [1, 0] [0, 0] = Inr (ts, bal)"
    and c: "\<forall>k\<le>length ts. net_position (take k ts) \<in> {0, 1}"
    and b: "\<forall>j<length ts. ttype (ts ! j) = BUY \<longrightarrow>
        (\<exists>i. Suc i < length cx_bars \<and> signal_date (ts ! j) = Formatted (date (cx_bars ! i)) \<and>
              raised_buy cx_sim cx_bars [1, 0] [0, 0] i)"
    and s: "\<forall>j<length ts. ttype (ts ! j) = SELL \<longrightarrow>
        (\<exists>i. Suc i < length cx_bars \<and> signal_date (ts ! j) = Formatted (date (cx_bars ! i)) \<and>
              raised_sell cx_sim cx_bars [1, 0] [0, 0] i)
        \<or> (Suc j = length ts \<and> signal_date (ts ! j) = End_of_period \<and>
            open_at_end cx_sim cx_bars [1, 0] [0, 0])"
    by blast
  have ts: "ts = [cx_buy, cx_sell]" using e cx_run by simp
  have i0: "\<And>i. Suc i < length cx_bars \<Longrightarrow> i = 0" by (simp add: cx_lengths(3))
  have "net_position (take 1 [cx_buy, cx_sell]) \<in> {0, 1}"
    using c[rule_format, of 1] unfolding ts by simp
  moreover have "net_position (take 2 [cx_buy, cx_sell]) \<in> {0, 1}"
    using c[rule_format, of 2] unfolding ts by simp
  moreover have "raised_buy cx_sim cx_bars [1, 0] [0, 0] 0"
    using b[rule_format, of 0] i0 unfolding ts by (auto simp: cx_buy_def)
  moreover have "open_at_end cx_sim cx_bars [1, 0] [0, 0]"
    using s[rule_format, of 1] unfolding ts by (auto simp: cx_sell_def)
  ultimately show ?thesis by simp
qed

text \<open>
  C10 on the two bars with the buy signal moved to the last one: no trade, the balance
  is the initial one.
\<close>

theorem final_bar_buy_signal_discarded_witness:
  "execute_trades cx_sim cx_bars [0, 1] [0, 0] = Inr ([], Some 10000) \<and>
   execute_trades cx_sim cx_bars [0, 0] [0, 0] = Inr ([], Some 10000) \<and>
   raised_buy cx_sim cx_bars [0, 1] [0, 0] 1 \<and>
   \<not> open_at_end cx_sim cx_bars [0, 1] [0, 0]"
proof -
  have l: "length cx_bars - 1 = Suc 0" "cx_bars \<noteq> []" "length cx_bars = 2"
    by (simp_all add: cx_bars_def)
  have sb: "state_before cx_sim cx_bars [0, 1] [0, 0] (Suc 0) = Inr (init_state cx_sim)"
    by (simp add: state_before_def step_def list_get_def init_state_def)
  have r: "raised_buy cx_sim cx_bars [0, 1] [0, 0] (length cx_bars - 1)"
    unfolding l by (simp add: raised_buy_def sb init_state_def)
  have "length cx_bars \<le> length [0, 1 :: int]" "length cx_bars \<le> length [0, 0 :: int]"
    by (simp_all add: l)
  from final_bar_buy_signal_discarded[OF l(2) this r]
  obtain st where st: "state_before cx_sim cx_bars [0, 1] [0, 0] (length cx_bars - 1) = Inr st"
      "execute_trades cx_sim cx_bars [0, 1] [0, 0] = Inr (trades st, balance st)"
      "execute_trades cx_sim cx_bars ([0, 1][length cx_bars - 1 := 0]) [0, 0] = Inr (trades st, balance st)"
      "\<not> open_at_end cx_sim cx_bars [0, 1] [0, 0]"
    by blast
  have "st = init_state cx_sim" using st(1) sb unfolding l by simp
  then have v: "trades st = []" "balance st = Some 10000"
    by (simp_all add: init_state_def cx_sim_def)
  have u: "[0, 1 :: int][length cx_bars - 1 := 0] = [0, 0]"
    unfolding l by simp
  show ?thesis using st(2,3,4) r unfolding u v l by simp
qed

section \<open>Indicators and signals: results and lengths\<close>

lemma ewm_loop_length: "length (ewm_loop a st xs) = length xs"
  by (induction xs arbitrary: st) (simp_all add: Let_def)

lemma ewm_mean_ok:
  assumes "1 \<le> s"
  shows "\<exists>ys. ewm_mean s xs = Inr ys \<and> length ys = length xs"
  using assms by (cases xs) (simp_all add: ewm_mean_def ewm_loop_length)







lemma iloc_last:
  assumes "xs \<noteq> []"
  shows "iloc xs (- 1) = Inr (last xs)"
  using assms by (cases xs rule: rev_cases) (simp_all add: iloc_def nth_append)

lemma latest_ok:
  assumes "xs \<noteq> []"
  shows "latest xs n = Inr (round_num (last xs) n)"
  using assms by (simp add: latest_def iloc_last)

lemma calculate_macd_ok:
  assumes "df \<noteq> []" "slow \<le> int (length df)" "1 \<le> fast" "1 \<le> slow" "1 \<le> sig"
  shows "\<exists>ef es sl. ewm_mean fast (map Close df) = Inr ef \<and> ewm_mean slow (map Close df) = Inr es \<and>
           ewm_mean sig (map2 nsub ef es) = Inr sl \<and>
           length ef = length df \<and> length es = length df \<and> length sl = length df \<and>
           calculate_macd df fast slow sig =
             Ok \<lparr>macd_line = map2 nsub ef es, signal_line = sl,
                 histogram = map2 nsub (map2 nsub ef es) sl,
                 macd_latest = (round_num (last (map2 nsub ef es)) 4, round_num (last sl) 4,
                                round_num (last (map2 nsub (map2 nsub ef es) sl)) 4)\<rparr>"
proof -
  obtain ef where ef: "ewm_mean fast (map Close df) = Inr ef" "length ef = length df"
    using ewm_mean_ok[OF assms(3), of "map Close df"] by auto
  obtain es where es: "ewm_mean slow (map Close df) = Inr es" "length es = length df"
    using ewm_mean_ok[OF assms(4), of "map Close df"] by auto
  let ?ml = "map2 nsub ef es"
  have lml: "length ?ml = length df" using ef es by simp
  obtain sl where sl: "ewm_mean sig ?ml = Inr sl" "length sl = length df"
    using ewm_mean_ok[OF assms(5), of ?ml] lml by auto
  let ?h = "map2 nsub ?ml sl"
  have lh: "length ?h = length df" using lml sl(2) by simp
  have ne: "?ml \<noteq> []" "sl \<noteq> []" "?h \<noteq> []"
    using assms(1) lml sl(2) lh by (metis length_0_conv)+
  have "calculate_macd df fast slow sig =
             Ok \<lparr>macd_line = ?ml, signal_line = sl, histogram = ?h,
                 macd_latest = (round_num (last ?ml) 4, round_num (last sl) 4, round_num (last ?h) 4)\<rparr>"
    using assms(1,2) by (simp add: calculate_macd_def ef es sl Let_def latest_ok[OF ne(1)]
        latest_ok[OF ne(2)] latest_ok[OF ne(3)])
  then show ?thesis using ef es sl by blast
qed



lemma iloc_ok:
  assumes "0 \<le> i" "i < int (length xs)"
  shows "iloc xs i = Inr (xs ! nat i)"
  using assms by (simp add: iloc_def)









section \<open>The signal detector\<close>



text \<open>
  C5. With MACD as the sell indicator, the sell signal fires at index \<open>i\<close> exactly when
  \<open>i \<ge> 2\<close>, the histogram has entries at \<open>i - 2\<close>, \<open>i - 1\<close> and \<open>i\<close>, all three
  are defined, the one at \<open>i - 2\<close> is below the one at \<open>i - 1\<close>, the one at \<open>i\<close> is below
  the one at \<open>i - 1\<close>, and the one at \<open>i - 1\<close> is positive. For \<open>i < 2\<close>, and for an
  undefined entry among the three, the answer is \<open>False\<close>.
\<close>

theorem macd_sell_signal_fires_iff:
  assumes "lower indicator = ''macd''"
  shows "((check_sell_signal i indicator h k d th = Inr True) =
            (2 \<le> i \<and> i < int (length h) \<and>
             (\<exists>a b c. h ! nat (i - 2) = Some a \<and> h ! nat (i - 1) = Some b \<and> h ! nat i = Some c \<and>
                      a < b \<and> c < b \<and> 0 < b))) \<and>
         (i < 2 \<longrightarrow> check_sell_signal i indicator h k d th = Inr False) \<and>
         (2 \<le> i \<and> i < int (length h) \<and>
            (h ! nat (i - 2) = None \<or> h ! nat (i - 1) = None \<or> h ! nat i = None) \<longrightarrow>
          check_sell_signal i indicator h k d th = Inr False)"
proof (cases "i < 2")
  case True
  then show ?thesis using assms by (simp add: check_sell_signal_def)
next
  case i2: False
  show ?thesis
  proof (cases "i < int (length h)")
    case False
    then have "iloc h i = Inl IndexError" using i2 by (simp add: iloc_def)
    then have "check_sell_signal i indicator h k d th \<noteq> Inr True"
      using assms i2 by (simp add: check_sell_signal_def split: sum.splits)
    then show ?thesis using i2 False by simp
  next
    case True
    have a: "iloc h i = Inr (h ! nat i)" "iloc h (i - 1) = Inr (h ! nat (i - 1))"
      "iloc h (i - 2) = Inr (h ! nat (i - 2))"
      using True i2 by (simp_all add: iloc_ok)
    have "check_sell_signal i indicator h k d th =
        (if isna (h ! nat (i - 2)) \<or> isna (h ! nat (i - 1)) \<or> isna (h ! nat i) then Inr False
         else Inr (nlt (h ! nat (i - 2)) (h ! nat (i - 1)) \<and> ngt (h ! nat (i - 1)) (h ! nat i) \<and>
                   ngt (h ! nat (i - 1)) (Some 0)))"
      using assms i2 by (simp add: check_sell_signal_def a Let_def)
    then show ?thesis
      using i2 True by (auto simp: isna_def nlt_def ngt_def split: option.splits)
  qed
qed

text \<open>C5 on the histogram 1, 3, 2: a peak at index 1, seen at index 2.\<close>

theorem macd_sell_signal_fires_iff_witness:
  "check_sell_signal 2 ''MACD'' [Some 1, Some 3, Some 2] [] [] None = Inr True \<and>
   check_sell_signal 1 ''MACD'' [Some 1, Some 3, Some 2] [] [] None = Inr False \<and>
   check_sell_signal 2 ''MACD'' [Some 1, None, Some 2] [] [] None = Inr False"
proof -
  have l: "lower ''MACD'' = ''macd''" by code_simp
  show ?thesis
    using macd_sell_signal_fires_iff[OF l, of 2 "[Some 1, Some 3, Some 2]" "[]" "[]" None]
      macd_sell_signal_fires_iff[OF l, of 1 "[Some 1, Some 3, Some 2]" "[]" "[]" None]
      macd_sell_signal_fires_iff[OF l, of 2 "[Some 1, None, Some 2]" "[]" "[]" None]
    by (simp add: numeral_2_eq_2)
qed





section \<open>The simulation as a whole\<close>





section \<open>The scanner: sorting and exclude rules\<close>

lemma sort_value_numeric:
  assumes "numeric_field r f"
  shows "sort_value r f = VNum (lookup_number r f)"
  using assms
  by (auto simp: numeric_field_def sort_value_def lookup_number_def py_or_def truthy_def
      split: option.splits val.splits)

lemma get_sort_key_numeric:
  assumes "list_all (\<lambda>rule. numeric_field r (sort_field rule)) rules"
  shows "get_sort_key rules r = map VNum (number_key rules r)"
  using assms
  by (induction rules) (simp_all add: get_sort_key_def number_key_def sort_value_numeric Let_def)

lemma comparable_numbers: "length a = length b \<Longrightarrow> comparable (map VNum a) (map VNum b)"
  by (induction a b rule: list_induct2) simp_all

lemma VNum_le: "(VNum x \<le> VNum y) = (x \<le> y)"
  by (simp add: less_eq_val_def)

lemma VNum_less: "(VNum x < VNum y) = (x < y)"
  by (auto simp: less_val_def less_eq_val_def)

lemma map_VNum_less: "(map VNum a < map VNum b) = (a < b)"
proof (induction a arbitrary: b)
  case Nil
  then show ?case by (cases b) simp_all
next
  case (Cons x a)
  then show ?case by (cases b) (simp_all add: VNum_less)
qed

lemma map_VNum_le: "(map VNum a \<le> map VNum b) = (a \<le> b)"
  by (simp add: order_le_less map_VNum_less inj_def)

lemma sorted_map_VNum: "sorted (map (map VNum) ks) = sorted ks"
  by (induction ks) (auto simp: map_VNum_le)

lemma lower_desc: "lower ''desc'' = ''desc''"
  by code_simp

lemma effective_rules_default:
  "effective_rules None = [\<lparr>sort_field = ''return_percentage'', order = ''desc''\<rparr>]"
  "effective_rules (Some []) = effective_rules None"
  by (simp_all add: effective_rules_def default_sort_rules_def)

lemma apply_sorting_numeric:
  assumes "numeric_fields results (effective_rules sort_rules)"
  shows "apply_sorting results sort_rules =
           Inr (sort_key (get_sort_key (effective_rules sort_rules)) results)"
proof (cases "results = []")
  case True
  then show ?thesis by (simp add: apply_sorting_def)
next
  case False
  let ?rules = "effective_rules sort_rules"
  have k: "\<And>r. r \<in> set results \<Longrightarrow> get_sort_key ?rules r = map VNum (number_key ?rules r)"
    using assms by (intro get_sort_key_numeric) (simp add: numeric_fields_def list_all_iff)
  have len: "\<And>a b. length (number_key ?rules a) = length (number_key ?rules b)"
    by (simp add: number_key_def)
  have "\<And>a b. a \<in> set results \<Longrightarrow> b \<in> set results \<Longrightarrow>
      comparable (get_sort_key ?rules a) (get_sort_key ?rules b)"
    using comparable_numbers[OF len] by (simp only: k)
  then have "list_all (\<lambda>a. list_all (comparable a) (map (get_sort_key ?rules) results))
       (map (get_sort_key ?rules) results)"
    by (simp add: list_all_iff)
  then show ?thesis
    using False by (simp add: apply_sorting_def Let_def effective_rules_def)
qed

text \<open>
  C8. On results whose sort fields hold numbers, as the simulator writes them,
  \<open>_apply_sorting\<close> returns a rearrangement of the results that is ordered by the
  list of their keys, the first rule's key compared first and a later key only on a tie
  of all earlier ones, results with equal keys keeping their order; each key is the
  field's value from the summary, else from the statistics, else 0, negated for
  \<open>desc\<close>. Without rules it sorts by \<open>return_percentage\<close> descending. Under the
  rules success_rate desc, return_percentage desc, a result never precedes one with a
  higher success rate, nor one with the same success rate and a higher return.
\<close>

theorem sorting_orders_by_rules:
  assumes "numeric_fields results (effective_rules sort_rules)"
  shows "\<exists>out. apply_sorting results sort_rules = Inr out \<and>
           mset out = mset results \<and>
           sorted (map (number_key (effective_rules sort_rules)) out) \<and>
           (\<forall>k. filter (\<lambda>r. number_key (effective_rules sort_rules) r = k) out =
                filter (\<lambda>r. number_key (effective_rules sort_rules) r = k) results) \<and>
           effective_rules None = [\<lparr>sort_field = ''return_percentage'', order = ''desc''\<rparr>] \<and>
           effective_rules (Some []) = effective_rules None \<and>
           (effective_rules sort_rules =
              [\<lparr>sort_field = ''success_rate'', order = ''desc''\<rparr>,
               \<lparr>sort_field = ''return_percentage'', order = ''desc''\<rparr>] \<longrightarrow>
            (\<forall>i j. i < j \<and> j < length out \<longrightarrow>
               lookup_number (out ! j) ''success_rate'' < lookup_number (out ! i) ''success_rate'' \<or>
               (lookup_number (out ! j) ''success_rate'' = lookup_number (out ! i) ''success_rate'' \<and>
                lookup_number (out ! j) ''return_percentage'' \<le>
                  lookup_number (out ! i) ''return_percentage'')))"
proof -
  let ?rules = "effective_rules sort_rules"
  let ?out = "sort_key (get_sort_key ?rules) results"
  have out: "apply_sorting results sort_rules = Inr ?out"
    using apply_sorting_numeric[OF assms] .
  have m: "mset ?out = mset results" by simp
  then have s: "set ?out = set results" by (metis set_mset_mset)
  have k: "\<And>r. r \<in> set results \<Longrightarrow> get_sort_key ?rules r = map VNum (number_key ?rules r)"
    using assms by (intro get_sort_key_numeric) (simp add: numeric_fields_def list_all_iff)
  have "sorted (map (get_sort_key ?rules) ?out)" by (rule sorted_sort_key)
  moreover have "map (get_sort_key ?rules) ?out = map (map VNum) (map (number_key ?rules) ?out)"
    using k s by simp
  ultimately have srt: "sorted (map (number_key ?rules) ?out)"
    by (simp only: sorted_map_VNum)
  have stab: "\<forall>key. filter (\<lambda>r. number_key ?rules r = key) ?out =
                filter (\<lambda>r. number_key ?rules r = key) results"
  proof
    fix key
    have "filter (\<lambda>r. number_key ?rules r = key) ?out =
          filter (\<lambda>r. get_sort_key ?rules r = map VNum key) ?out"
      using k s by (intro filter_cong) (auto simp: inj_def)
    also have "\<dots> = filter (\<lambda>r. get_sort_key ?rules r = map VNum key) results"
      by (rule sort_key_stable)
    also have "\<dots> = filter (\<lambda>r. number_key ?rules r = key) results"
      using k by (intro filter_cong) (auto simp: inj_def)
    finally show "filter (\<lambda>r. number_key ?rules r = key) ?out =
                filter (\<lambda>r. number_key ?rules r = key) results" .
  qed
  have ex: "\<forall>i j. i < j \<and> j < length ?out \<longrightarrow>
               lookup_number (?out ! j) ''success_rate'' < lookup_number (?out ! i) ''success_rate'' \<or>
               (lookup_number (?out ! j) ''success_rate'' = lookup_number (?out ! i) ''success_rate'' \<and>
                lookup_number (?out ! j) ''return_percentage'' \<le>
                  lookup_number (?out ! i) ''return_percentage'')"
    if r: "?rules = [\<lparr>sort_field = ''success_rate'', order = ''desc''\<rparr>,
               \<lparr>sort_field = ''return_percentage'', order = ''desc''\<rparr>]"
  proof (intro allI impI)
    fix i j assume ij: "i < j \<and> j < length ?out"
    then have "number_key ?rules (?out ! i) \<le> number_key ?rules (?out ! j)"
      using srt by (simp add: sorted_iff_nth_mono)
    then show "lookup_number (?out ! j) ''success_rate'' < lookup_number (?out ! i) ''success_rate'' \<or>
               (lookup_number (?out ! j) ''success_rate'' = lookup_number (?out ! i) ''success_rate'' \<and>
                lookup_number (?out ! j) ''return_percentage'' \<le>
                  lookup_number (?out ! i) ''return_percentage'')"
      unfolding r by (auto simp: number_key_def lower_desc order_le_less)
  qed
  show ?thesis
    using out m srt stab effective_rules_default ex by blast
qed

lemma cx_numeric:
  "numeric_fields [cx_result ''AAA'' 10100 1 50, cx_result ''BBB'' 10200 2 100,
       cx_result ''CCC'' 10300 3 50] (effective_rules (Some cx_sort))"
  by (simp add: numeric_fields_def effective_rules_def cx_sort_def cx_result_def numeric_field_def)

lemma cx_sorted:
  "map_sum id (map stock)
     (apply_sorting [cx_result ''AAA'' 10100 1 50, cx_result ''BBB'' 10200 2 100,
         cx_result ''CCC'' 10300 3 50] (Some cx_sort)) = Inr [''BBB'', ''CCC'', ''AAA'']"
  by code_simp

text \<open>
  C8 on three results with success rates 50, 100, 50 and returns 1, 2, 3: the result
  with the highest success rate comes first, the tie of the other two is broken by the
  higher return.
\<close>

theorem sorting_orders_by_rules_witness:
  "(\<exists>out. apply_sorting [cx_result ''AAA'' 10100 1 50, cx_result ''BBB'' 10200 2 100,
              cx_result ''CCC'' 10300 3 50] (Some cx_sort) = Inr out \<and>
          mset out = mset [cx_result ''AAA'' 10100 1 50, cx_result ''BBB'' 10200 2 100,
              cx_result ''CCC'' 10300 3 50] \<and>
          sorted (map (number_key cx_sort) out)) \<and>
   map_sum id (map stock)
     (apply_sorting [cx_result ''AAA'' 10100 1 50, cx_result ''BBB'' 10200 2 100,
         cx_result ''CCC'' 10300 3 50] (Some cx_sort)) = Inr [''BBB'', ''CCC'', ''AAA'']"
proof -
  have e: "effective_rules (Some cx_sort) = cx_sort"
    by (simp add: effective_rules_def cx_sort_def)
  from sorting_orders_by_rules[OF cx_numeric]
  have "\<exists>out. apply_sorting [cx_result ''AAA'' 10100 1 50, cx_result ''BBB'' 10200 2 100,
              cx_result ''CCC'' 10300 3 50] (Some cx_sort) = Inr out \<and>
          mset out = mset [cx_result ''AAA'' 10100 1 50, cx_result ''BBB'' 10200 2 100,
              cx_result ''CCC'' 10300 3 50] \<and>
          sorted (map (number_key cx_sort) out)"
    unfolding e by blast
  then show ?thesis using cx_sorted by blast
qed

text \<open>
  C7 on a concrete scan: the rule return_percentage < 10 removes the result with a
  return of 5 and keeps the one with a return of 20, but it also keeps the result whose
  return_percentage is 0: \<open>summary.get(field) or stats.get(field)\<close> passes over the
  summary's 0 as if the field were missing, the statistics have no such field, and the
  rule is skipped.
\<close>

theorem exclude_rule_keeps_zero_return:
  "apply_exclude_rules
     [cx_result ''AAA'' (100003 / 10) 0 100, cx_result ''BBB'' 10500 5 100,
      cx_result ''CCC'' 12000 20 100] [cx_exclude] =
     [cx_result ''AAA'' (100003 / 10) 0 100, cx_result ''CCC'' 12000 20 100] \<and>
   trading_summary (cx_result ''AAA'' (100003 / 10) 0 100) ''return_percentage'' = Some (VNum 0) \<and>
   field cx_exclude = ''return_percentage'' \<and> operator cx_exclude = ''<'' \<and>
   rule_value cx_exclude = 10"
  by (simp add: apply_exclude_rules_def cx_result_def cx_exclude_def py_or_def truthy_def
      evaluate_condition_def)

section \<open>MACD: the exponentially weighted mean\<close>

lemma weighted_sum_wnum:
  assumes "t < length xs"
  shows "weighted_sum alpha xs t = wnum (1 - alpha) (rev (take (Suc t) xs))"
  using assms
proof (induction t)
  case 0
  then show ?case by (cases xs) (simp_all add: weighted_sum_def split: option.splits)
next
  case (Suc t)
  then have t: "t < length xs" by simp
  have tk: "take (Suc (Suc t)) xs = take (Suc t) xs @ [xs ! Suc t]"
    using Suc.prems by (simp add: take_Suc_conv_app_nth)
  have "(\<Sum>i\<le>t. case xs ! i of Some x \<Rightarrow> (1 - alpha) ^ (Suc t - i) * x | None \<Rightarrow> 0)
      = (\<Sum>i\<le>t. (1 - alpha) * (case xs ! i of Some x \<Rightarrow> (1 - alpha) ^ (t - i) * x | None \<Rightarrow> 0))"
    by (intro sum.cong) (auto simp: Suc_diff_le split: option.splits)
  also have "\<dots> = (1 - alpha) * weighted_sum alpha xs t"
    by (simp add: weighted_sum_def sum_distrib_left)
  finally have "weighted_sum alpha xs (Suc t) =
      (case xs ! Suc t of Some x \<Rightarrow> x | None \<Rightarrow> 0) + (1 - alpha) * weighted_sum alpha xs t"
    by (simp add: weighted_sum_def split: option.splits)
  then show ?case using Suc.IH[OF t] by (simp add: tk)
qed

lemma weight_total_wden:
  assumes "t < length xs"
  shows "weight_total alpha xs t = wden (1 - alpha) (rev (take (Suc t) xs))"
  using assms
proof (induction t)
  case 0
  then show ?case by (cases xs) (simp_all add: weight_total_def split: option.splits)
next
  case (Suc t)
  then have t: "t < length xs" by simp
  have tk: "take (Suc (Suc t)) xs = take (Suc t) xs @ [xs ! Suc t]"
    using Suc.prems by (simp add: take_Suc_conv_app_nth)
  have "(\<Sum>i\<le>t. case xs ! i of Some x \<Rightarrow> (1 - alpha) ^ (Suc t - i) | None \<Rightarrow> 0)
      = (\<Sum>i\<le>t. (1 - alpha) * (case xs ! i of Some x \<Rightarrow> (1 - alpha) ^ (t - i) | None \<Rightarrow> 0))"
    by (intro sum.cong) (auto simp: Suc_diff_le split: option.splits)
  also have "\<dots> = (1 - alpha) * weight_total alpha xs t"
    by (simp add: weight_total_def sum_distrib_left)
  finally have "weight_total alpha xs (Suc t) =
      (case xs ! Suc t of Some x \<Rightarrow> 1 | None \<Rightarrow> 0) + (1 - alpha) * weight_total alpha xs t"
    by (simp add: weight_total_def split: option.splits)
  then show ?case using Suc.IH[OF t] by (simp add: tk)
qed

lemma ewm_adjusted_prefix:
  assumes "t < length xs"
  shows "ewm_adjusted alpha xs t =
     (if list_all (\<lambda>x. x = None) (take (Suc t) xs) then None
      else Some (wnum (1 - alpha) (rev (take (Suc t) xs)) / wden (1 - alpha) (rev (take (Suc t) xs))))"
  by (simp only: ewm_adjusted_def weighted_sum_wnum[OF assms] weight_total_wden[OF assms])

lemma wden_all_None: "list_all (\<lambda>x. x = None) xs \<Longrightarrow> wden q (rev xs) = 0"
  by (induction xs rule: rev_induct) simp_all

lemma wnum_all_None: "list_all (\<lambda>x. x = None) xs \<Longrightarrow> wnum q (rev xs) = 0"
  by (induction xs rule: rev_induct) simp_all

lemma wden_nonneg: "0 \<le> q \<Longrightarrow> 0 \<le> wden q xs"
  by (induction xs) (auto split: option.splits)

lemma ewm_inv_first: "ewm_inv q (ewm_first x) [x]"
  by (cases x) (simp_all add: ewm_inv_def ewm_first_def)

lemma ewm_inv_step:
  assumes inv: "ewm_inv q st pre" and q: "0 < q"
  shows "ewm_inv q (ewm_step (1 - q) st x) (pre @ [x])"
proof (cases "list_all (\<lambda>x. x = None) pre")
  case True
  then have st: "weighted st = None" "old_wt st = 1" "nobs st = 0"
    using inv by (simp_all add: ewm_inv_def)
  show ?thesis
  proof (cases x)
    case None
    then show ?thesis using True st by (simp add: ewm_inv_def ewm_step_def)
  next
    case (Some c)
    then show ?thesis
      using True st by (simp add: ewm_inv_def ewm_step_def wden_all_None wnum_all_None)
  qed
next
  case False
  let ?W = "wden q (rev pre)" and ?S = "wnum q (rev pre)"
  from False have st: "0 < ?W" "old_wt st = ?W" "1 \<le> nobs st" "weighted st = Some (?S / ?W)"
    using inv by (simp_all add: ewm_inv_def)
  have qW: "0 < q * ?W" using q st(1) by simp
  show ?thesis
  proof (cases x)
    case None
    then show ?thesis
      using False st q qW by (simp add: ewm_inv_def ewm_step_def)
  next
    case (Some c)
    have pos: "0 < 1 + q * ?W" using qW by simp
    have eq: "(?W * q * (?S / ?W) + c) / (?W * q + 1) = (c + q * ?S) / (1 + q * ?W)"
      using st(1) by (simp add: field_simps)
    have same: "?S / ?W = c \<Longrightarrow> (c + q * ?S) / (1 + q * ?W) = c"
    proof -
      assume "?S / ?W = c"
      then have "?S = c * ?W" using st(1) by (simp add: field_simps)
      then show ?thesis using pos by (simp add: field_simps)
    qed
    show ?thesis
      using False st Some pos eq same
      by (auto simp: ewm_inv_def ewm_step_def Let_def add.commute mult.commute)
  qed
qed

lemma ewm_output_inv:
  assumes "ewm_inv q st pre"
  shows "ewm_output st =
     (if list_all (\<lambda>x. x = None) pre then None
      else Some (wnum q (rev pre) / wden q (rev pre)))"
  using assms by (auto simp: ewm_inv_def ewm_output_def split: if_splits)

lemma ewm_loop_nth:
  assumes "ewm_inv q st pre" "0 < q" "j < length ys"
  shows "ewm_loop (1 - q) st ys ! j =
     (if list_all (\<lambda>x. x = None) (pre @ take (Suc j) ys) then None
      else Some (wnum q (rev (pre @ take (Suc j) ys)) / wden q (rev (pre @ take (Suc j) ys))))"
  using assms
proof (induction ys arbitrary: st pre j)
  case Nil
  then show ?case by simp
next
  case (Cons y ys)
  let ?st = "ewm_step (1 - q) st y"
  have inv': "ewm_inv q ?st (pre @ [y])"
    using ewm_inv_step[OF Cons.prems(1,2)] .
  show ?case
  proof (cases j)
    case 0
    then show ?thesis
      using ewm_output_inv[OF inv'] by (simp add: Let_def)
  next
    case (Suc j')
    then have "j' < length ys" using Cons.prems(3) by simp
    from Cons.IH[OF inv' Cons.prems(2) this] show ?thesis
      using Suc by (simp add: Let_def)
  qed
qed

lemma ewm_alpha_range:
  assumes "1 < s"
  shows "0 < 1 - ewm_alpha s"
  using assms by (simp add: ewm_alpha_def field_simps)

lemma ewm_mean_adjusted:
  assumes "1 < s" "t < length xs"
  shows "\<exists>ys. ewm_mean s xs = Inr ys \<and> length ys = length xs \<and>
              ys ! t = ewm_adjusted (ewm_alpha s) xs t"
proof -
  obtain x rest where xs: "xs = x # rest" using assms(2) by (cases xs) auto
  let ?q = "1 - ewm_alpha s"
  have q: "0 < ?q" using ewm_alpha_range[OF assms(1)] .
  have a: "1 - ?q = ewm_alpha s" by simp
  let ?ys = "ewm_output (ewm_first x) # ewm_loop (ewm_alpha s) (ewm_first x) rest"
  have m: "ewm_mean s xs = Inr ?ys" using assms(1) by (simp add: ewm_mean_def xs)
  have l: "length ?ys = length xs" by (simp add: xs ewm_loop_length)
  note pf = ewm_adjusted_prefix[OF assms(2), of "ewm_alpha s"]
  have "?ys ! t = ewm_adjusted (ewm_alpha s) xs t"
  proof (cases t)
    case 0
    have "?ys ! 0 = (if list_all (\<lambda>x. x = None) [x] then None
        else Some (wnum ?q (rev [x]) / wden ?q (rev [x])))"
      using ewm_output_inv[OF ewm_inv_first[of ?q x]] by simp
    then show ?thesis by (subst pf) (simp add: 0 xs)
  next
    case (Suc j)
    then have j: "j < length rest" using assms(2) xs by simp
    have "?ys ! Suc j = (if list_all (\<lambda>x. x = None) ([x] @ take (Suc j) rest) then None
        else Some (wnum ?q (rev ([x] @ take (Suc j) rest)) / wden ?q (rev ([x] @ take (Suc j) rest))))"
      using ewm_loop_nth[OF ewm_inv_first[of ?q x] q j] unfolding a by simp
    then show ?thesis by (subst pf) (simp add: Suc xs)
  qed
  then show ?thesis using m l by blast
qed

lemma ewm_adjusted_0:
  assumes "xs \<noteq> []"
  shows "ewm_adjusted alpha xs 0 = xs ! 0"
  using assms
  by (cases xs) (auto simp: ewm_adjusted_def weighted_sum_def weight_total_def split: option.splits)

lemma nth_map2_nsub:
  assumes "t < length xs" "t < length ys"
  shows "map2 nsub xs ys ! t = nsub (xs ! t) (ys ! t)"
  using assms by simp

text \<open>
  C3 (as amended). For periods above 1 and a series of at least \<open>slow_period\<close> bars,
  \<open>calculate_macd\<close> returns three series as long as the input with, at every index,
  MACD line = EMA_fast(close) - EMA_slow(close), signal line = EMA_signal(MACD line)
  and histogram = MACD line - signal line, where EMA is pandas' adjusted exponentially
  weighted mean with \<open>\<alpha> = 2 / (span + 1)\<close>: the average of the values so far, the
  value \<open>i\<close> steps back weighted by \<open>(1 - \<alpha>) ^ i\<close>. Its first value is the first input
  value; it is not the recurrence \<open>EMA_t = (1 - \<alpha>) EMA_(t-1) + \<alpha> x_t\<close>.
\<close>

theorem macd_is_adjusted_ewm:
  assumes "1 < fast_period" "1 < slow_period" "1 < signal_period"
    and "slow_period \<le> int (length df)"
  shows "\<exists>m. calculate_macd df fast_period slow_period signal_period = Ok m \<and>
     length (macd_line m) = length df \<and> length (signal_line m) = length df \<and>
     length (histogram m) = length df \<and>
     (\<forall>t<length df.
        macd_line m ! t =
          nsub (ewm_adjusted (ewm_alpha fast_period) (map Close df) t)
               (ewm_adjusted (ewm_alpha slow_period) (map Close df) t) \<and>
        signal_line m ! t = ewm_adjusted (ewm_alpha signal_period) (macd_line m) t \<and>
        histogram m ! t = nsub (macd_line m ! t) (signal_line m ! t)) \<and>
     ewm_adjusted (ewm_alpha fast_period) (map Close df) 0 = Close (df ! 0) \<and>
     ewm_adjusted (ewm_alpha slow_period) (map Close df) 0 = Close (df ! 0) \<and>
     ewm_adjusted (ewm_alpha signal_period) (macd_line m) 0 = macd_line m ! 0 \<and>
     ewm_alpha fast_period = 2 / (real_of_int fast_period + 1)"
proof -
  have df: "df \<noteq> []" using assms(2,4) by auto
  have p: "1 \<le> fast_period" "1 \<le> slow_period" "1 \<le> signal_period"
    using assms(1-3) by simp_all
  from calculate_macd_ok[OF df assms(4) p] obtain ef es sl where
    ef: "ewm_mean fast_period (map Close df) = Inr ef" "length ef = length df"
    and es: "ewm_mean slow_period (map Close df) = Inr es" "length es = length df"
    and sl: "ewm_mean signal_period (map2 nsub ef es) = Inr sl" "length sl = length df"
    and m: "calculate_macd df fast_period slow_period signal_period =
             Ok \<lparr>macd_line = map2 nsub ef es, signal_line = sl,
                 histogram = map2 nsub (map2 nsub ef es) sl,
                 macd_latest = (round_num (last (map2 nsub ef es)) 4, round_num (last sl) 4,
                                round_num (last (map2 nsub (map2 nsub ef es) sl)) 4)\<rparr>"
    by blast
  let ?ml = "map2 nsub ef es"
  have lml: "length ?ml = length df" using ef(2) es(2) by simp
  have point: "?ml ! t =
          nsub (ewm_adjusted (ewm_alpha fast_period) (map Close df) t)
               (ewm_adjusted (ewm_alpha slow_period) (map Close df) t) \<and>
        sl ! t = ewm_adjusted (ewm_alpha signal_period) ?ml t \<and>
        map2 nsub ?ml sl ! t = nsub (?ml ! t) (sl ! t)" if t: "t < length df" for t
  proof -
    have a: "ef ! t = ewm_adjusted (ewm_alpha fast_period) (map Close df) t"
      using ewm_mean_adjusted[OF assms(1), of t "map Close df"] t ef(1) by auto
    have b: "es ! t = ewm_adjusted (ewm_alpha slow_period) (map Close df) t"
      using ewm_mean_adjusted[OF assms(2), of t "map Close df"] t es(1) by auto
    have tm: "t < length ?ml" using t lml by (simp only:)
    have c: "sl ! t = ewm_adjusted (ewm_alpha signal_period) ?ml t"
      using ewm_mean_adjusted[OF assms(3) tm] sl(1) by auto
    have "?ml ! t = nsub (ef ! t) (es ! t)"
      using t ef(2) es(2) by (intro nth_map2_nsub) simp_all
    moreover have "map2 nsub ?ml sl ! t = nsub (?ml ! t) (sl ! t)"
      using t lml sl(2) by (intro nth_map2_nsub) simp_all
    ultimately show ?thesis using a b c by simp
  qed
  have z: "ewm_adjusted (ewm_alpha fast_period) (map Close df) 0 = Close (df ! 0)"
    "ewm_adjusted (ewm_alpha slow_period) (map Close df) 0 = Close (df ! 0)"
    using df by (simp_all add: ewm_adjusted_0)
  have "?ml \<noteq> []" using lml df by (metis length_0_conv)
  then have z2: "ewm_adjusted (ewm_alpha signal_period) ?ml 0 = ?ml ! 0"
    by (rule ewm_adjusted_0)
  show ?thesis
    unfolding m
    using point lml sl(2) z z2 by (simp add: ewm_alpha_def)
qed

lemma cx_series_length: "length cx_series = 26"
  by (simp add: cx_series_def)

lemma cx_series_ewm:
  "ewm_adjusted (ewm_alpha 12) (map Close cx_series) (Suc 0) = Some (253 / 24)"
  "ewm_adjusted (ewm_alpha 26) (map Close cx_series) (Suc 0) = Some (547 / 52)"
  by code_simp+

lemma cx_series_recurrence:
  "ema_recurrence (ewm_alpha 12) (map Close cx_series) ! Suc 0 = Some (132 / 13)"
  "ema_recurrence (ewm_alpha 26) (map Close cx_series) ! Suc 0 = Some (272 / 27)"
  by code_simp+

text \<open>C3 as amended, on the series \<open>cx_series\<close> with the default periods 12, 26, 9.\<close>

theorem macd_is_adjusted_ewm_witness:
  "\<exists>m. calculate_macd cx_series 12 26 9 = Ok m \<and>
       macd_line m ! 1 = Some (7 / 312) \<and>
       signal_line m ! 1 = ewm_adjusted (ewm_alpha 9) (macd_line m) 1 \<and>
       histogram m ! 25 = nsub (macd_line m ! 25) (signal_line m ! 25)"
proof -
  have h: "(1::int) < 12" "(1::int) < 26" "(1::int) < 9" "26 \<le> int (length cx_series)"
    by (simp_all add: cx_series_length)
  from macd_is_adjusted_ewm[OF h] obtain m where
    m: "calculate_macd cx_series 12 26 9 = Ok m"
    and p: "\<forall>t<length cx_series.
        macd_line m ! t =
          nsub (ewm_adjusted (ewm_alpha 12) (map Close cx_series) t)
               (ewm_adjusted (ewm_alpha 26) (map Close cx_series) t) \<and>
        signal_line m ! t = ewm_adjusted (ewm_alpha 9) (macd_line m) t \<and>
        histogram m ! t = nsub (macd_line m ! t) (signal_line m ! t)"
    by blast
  have "macd_line m ! 1 = Some (7 / 312)"
    using p[rule_format, of 1] by (simp add: cx_series_length cx_series_ewm nsub_def nlift2_def)
  moreover have "signal_line m ! 1 = ewm_adjusted (ewm_alpha 9) (macd_line m) 1"
    using p[rule_format, of 1] by (simp add: cx_series_length)
  moreover have "histogram m ! 25 = nsub (macd_line m ! 25) (signal_line m ! 25)"
    using p[rule_format, of 25] by (simp add: cx_series_length)
  ultimately show ?thesis using m by blast
qed

text \<open>
  C3 as stated fails on \<open>cx_series\<close>, whose closes start 10, 11: the MACD line at
  index 1 is 253/24 - 547/52 = 7/312, and the claimed recurrences give
  132/13 - 272/27 = 28/351.
\<close>

theorem macd_recurrence_counterexample:
  "(\<exists>m. calculate_macd cx_series 12 26 9 = Ok m \<and> macd_line m ! 1 = Some (7 / 312)) \<and>
   nsub (ema_recurrence (ewm_alpha 12) (map Close cx_series) ! 1)
        (ema_recurrence (ewm_alpha 26) (map Close cx_series) ! 1) = Some (28 / 351) \<and>
   map Close (take 2 cx_series) = [Some 10, Some 11]"
proof -
  have df: "cx_series \<noteq> []" "26 \<le> int (length cx_series)"
    by (simp_all add: cx_series_def)
  from calculate_macd_ok[OF df, of 12 9] obtain ef es m where
    ef: "ewm_mean 12 (map Close cx_series) = Inr ef" "length ef = length cx_series"
    and es: "ewm_mean 26 (map Close cx_series) = Inr es" "length es = length cx_series"
    and m: "calculate_macd cx_series 12 26 9 = Ok m" "macd_line m = map2 nsub ef es"
    by auto
  have t: "1 < length (map Close cx_series)" by (simp add: cx_series_length)
  have a: "ef ! 1 = Some (253 / 24)"
    using ewm_mean_adjusted[OF _ t, of 12] ef(1) by (auto simp: cx_series_ewm)
  have b: "es ! 1 = Some (547 / 52)"
    using ewm_mean_adjusted[OF _ t, of 26] es(1) by (auto simp: cx_series_ewm)
  have "macd_line m ! 1 = nsub (ef ! 1) (es ! 1)"
    unfolding m(2) using ef(2) es(2) by (intro nth_map2_nsub) (simp_all add: cx_series_length)
  then have "macd_line m ! 1 = Some (7 / 312)"
    using a b by (simp add: nsub_def nlift2_def)
  moreover have "nsub (ema_recurrence (ewm_alpha 12) (map Close cx_series) ! 1)
        (ema_recurrence (ewm_alpha 26) (map Close cx_series) ! 1) = Some (28 / 351)"
    using cx_series_recurrence by (simp add: nsub_def nlift2_def)
  moreover have "map Close (take 2 cx_series) = [Some 10, Some 11]"
    by (simp add: cx_series_def cx_bars_def numeral_2_eq_2)
  ultimately show ?thesis using m(1) by blast
qed

section \<open>KDJ: RSV and the smoothing recurrences\<close>





















end
